theory Spec2Isabelle
  imports Main "HOL-Library.Multiset"
begin

section \<open>The Kanban board of calculator.js\<close>

text \<open>
  The task board of the source keeps its state in the page: a task is a \<open>div.task\<close>
  element, its column is the task container it is a child of, and the durable copy is the
  local-storage slot \<open>kanbanTasks\<close>. The model passes that state explicitly.

  What the page (index.html, not among the sources) is taken to provide:
  \<^item> the task containers \<open>todoTasks\<close>, \<open>inprogressTasks\<close>, \<open>doneTasks\<close>, each one either
    found or not found, each inside the \<open>.kanban-column\<close> element with id \<open>todo\<close>,
    \<open>inprogress\<close>, \<open>done\<close>, in this document order, all inside \<open>#kanbanContent\<close>;
  \<^item> further static elements, whose ids are a parameter (\<open>others\<close>) of every operation
    that looks an element up by its id;
  \<^item> the calls of \<open>localStorage\<close> succeed.
  Decorative effects (the column flash, the timers that undo it and the input hint, the
  focus of the input) are left out. The calls of \<open>console.warn\<close> and \<open>console.error\<close> in the
  task operations, of \<open>saveTasksToLocalStorage\<close> and of \<open>triggerConfetti\<close> are recorded in
  an effect trace; the diagnostics that \<open>initializeKanbanDOMElements\<close> and \<open>initKanban\<close>
  print for elements they do not find are not.
\<close>

subsection \<open>JavaScript values as the load path sees them\<close>

text \<open>
  The result of \<open>JSON.parse\<close>. The load path never looks at the value of a number beyond
  its truthiness, so an integer stands for it. An object lists its own properties.
\<close>

datatype json =
    JNull
  | JBool bool
  | JNum int
  | JStr string
  | JArr "json list"
  | JObj "(string \<times> json) list"

text \<open>
  \<open>task.k\<close> for \<open>k\<close> one of \<open>id\<close>, \<open>text\<close>, \<open>status\<close>: \<open>None\<close> is \<open>undefined\<close>. Only an object
  has such a property; numbers, booleans, strings and arrays answer \<open>undefined\<close>. On
  \<open>null\<close> the access throws a TypeError, which the callers test for before they call.
\<close>

fun property :: "json \<Rightarrow> string \<Rightarrow> json option" where
  "property (JObj fs) k = map_of fs k"
| "property _ k = None"

text \<open>\<open>typeof v === 'string'\<close>, and the string then.\<close>

fun is_string :: "json option \<Rightarrow> bool" where
  "is_string (Some (JStr t)) = True"
| "is_string _ = False"

fun str_of :: "json option \<Rightarrow> string" where
  "str_of (Some (JStr t)) = t"
| "str_of _ = []"

text \<open>\<open>!task\<close>.\<close>

fun falsy :: "json \<Rightarrow> bool" where
  "falsy JNull = True"
| "falsy (JBool b) = (\<not> b)"
| "falsy (JNum n) = (n = 0)"
| "falsy (JStr t) = (t = [])"
| "falsy (JArr xs) = False"
| "falsy (JObj fs) = False"

text \<open>
  The text held by the storage slot, by what \<open>JSON.parse\<close> makes of it: the empty string
  (falsy, never parsed), a non-empty text on which \<open>JSON.parse\<close> throws, or a text that
  parses to a value. \<open>JSON.stringify\<close> of a value is a text that parses back to it.
\<close>

datatype stored = EmptyText | Malformed | Parses json

subsection \<open>The page state\<close>

datatype effect = Snapshot | Confetti | Warning | ErrorLog

record task_element =
  el_id :: string
  el_text :: string
  text_done :: bool
  lastColumn :: "string option"

record input_element =
  inp_value :: string
  inp_error_hint :: bool

record kanban =
  taskInput :: "input_element option"
  todoTasksContainer :: "task_element list option"
  inprogressTasksContainer :: "task_element list option"
  doneTasksContainer :: "task_element list option"
  kanbanTasks :: "stored option"
  effects :: "effect list"

text \<open>
  \<open>text_done\<close> is the class \<open>task-text-done\<close> on the text span, \<open>lastColumn\<close> is
  \<open>dataset.lastColumn\<close> (\<open>None\<close> while unset). An element or container that is \<open>None\<close> was
  not found in the page. \<open>inp_error_hint\<close> is the placeholder
  "Task description cannot be empty!" with the red border. \<open>kanbanTasks\<close> is
  \<open>localStorage.getItem('kanbanTasks')\<close>, \<open>None\<close> for \<open>null\<close>.
\<close>

definition children :: "task_element list option \<Rightarrow> task_element list" where
  "children c = (case c of None \<Rightarrow> [] | Some xs \<Rightarrow> xs)"

text \<open>\<open>taskContainers[key]\<close>: \<open>None\<close> when it is not an HTMLElement.\<close>

definition taskContainers :: "kanban \<Rightarrow> string \<Rightarrow> task_element list option" where
  "taskContainers s key =
     (if key = ''todo'' then todoTasksContainer s
      else if key = ''inprogress'' then inprogressTasksContainer s
      else if key = ''done'' then doneTasksContainer s
      else None)"

text \<open>Replacing the children of the container \<open>taskContainers[key]\<close>.\<close>

definition set_children :: "string \<Rightarrow> task_element list \<Rightarrow> kanban \<Rightarrow> kanban" where
  "set_children key xs s =
     (if key = ''todo'' then s\<lparr>todoTasksContainer := Some xs\<rparr>
      else if key = ''inprogress'' then s\<lparr>inprogressTasksContainer := Some xs\<rparr>
      else if key = ''done'' then s\<lparr>doneTasksContainer := Some xs\<rparr>
      else s)"

definition emit :: "effect \<Rightarrow> kanban \<Rightarrow> kanban" where
  "emit e s = s\<lparr>effects := effects s @ [e]\<rparr>"

text \<open>
  The ids of the static elements of the page: those of the elements the script found,
  of the columns and the board around the containers, and the ids of the rest of the
  page, \<open>others\<close>. No operation adds or removes a static element.
\<close>

definition page_ids :: "string list \<Rightarrow> kanban \<Rightarrow> string list" where
  "page_ids others s =
     (if taskInput s \<noteq> None then [''taskInput''] else [])
     @ (if todoTasksContainer s \<noteq> None then [''todoTasks'', ''todo'', ''kanbanContent''] else [])
     @ (if inprogressTasksContainer s \<noteq> None
        then [''inprogressTasks'', ''inprogress'', ''kanbanContent''] else [])
     @ (if doneTasksContainer s \<noteq> None then [''doneTasks'', ''done'', ''kanbanContent''] else [])
     @ others"

text \<open>
  The first task element with the id \<open>i\<close> in document order, with the key of the container
  it is a child of.
\<close>

definition first_task :: "kanban \<Rightarrow> string \<Rightarrow> (string \<times> task_element) option" where
  "first_task s i =
     (case find (\<lambda>e. el_id e = i) (children (todoTasksContainer s)) of
        Some e \<Rightarrow> Some (''todo'', e)
      | None \<Rightarrow>
     (case find (\<lambda>e. el_id e = i) (children (inprogressTasksContainer s)) of
        Some e \<Rightarrow> Some (''inprogress'', e)
      | None \<Rightarrow>
     (case find (\<lambda>e. el_id e = i) (children (doneTasksContainer s)) of
        Some e \<Rightarrow> Some (''done'', e)
      | None \<Rightarrow> None)))"

text \<open>
  \<open>document.getElementById(taskId)\<close>. An element whose id attribute is the empty string
  has no ID in the DOM, so the empty string finds nothing (\<open>Missing\<close> is \<open>null\<close>). When a
  static element of the page carries the id, the answer may be that element and not a
  task: \<open>PageElement\<close>. Otherwise the answer is the first task element with the id, if there
  is one: only task elements and static elements have ids.
\<close>

datatype lookup = Missing | TaskElement string task_element | PageElement

definition getElementById :: "string list \<Rightarrow> kanban \<Rightarrow> string \<Rightarrow> lookup" where
  "getElementById others s i =
     (if i = [] then Missing
      else if i \<in> set (page_ids others s) then PageElement
      else (case first_task s i of
              None \<Rightarrow> Missing
            | Some (key, e) \<Rightarrow> TaskElement key e))"

text \<open>Taking the first element with id \<open>i\<close> out of a container, or replacing it in place.\<close>

fun remove_el :: "string \<Rightarrow> task_element list \<Rightarrow> task_element list" where
  "remove_el i [] = []"
| "remove_el i (e # es) = (if el_id e = i then es else e # remove_el i es)"

fun replace_el :: "string \<Rightarrow> task_element \<Rightarrow> task_element list \<Rightarrow> task_element list" where
  "replace_el i e' [] = []"
| "replace_el i e' (e # es) = (if el_id e = i then e' # es else e # replace_el i e' es)"

subsection \<open>Utility functions\<close>

text \<open>
  \<open>String.prototype.trim\<close>. Characters are 8-bit; of the code units that \<open>trim\<close> strips,
  those in this range are tab, line feed, vertical tab, form feed, carriage return, space
  and the no-break space.
\<close>

definition is_space :: "char \<Rightarrow> bool" where
  "is_space c = (c \<in> set [CHR 0x09, CHR 0x0A, CHR 0x0B, CHR 0x0C, CHR 0x0D, CHR 0x20, CHR 0xA0])"

definition trim :: "string \<Rightarrow> string" where
  "trim t = rev (dropWhile is_space (rev (dropWhile is_space t)))"

text \<open>
  \<open>generateId\<close>: \<open>'task-' + Date.now() + '-' + Math.random().toString(36).substr(2, 9)\<close>.
  The clock value and the base-36 digits of the random number after \<open>0.\<close> come from the
  environment.
\<close>

definition digit :: "nat \<Rightarrow> char" where
  "digit d = ''0123456789'' ! d"

function decimal :: "nat \<Rightarrow> string" where
  "decimal n = (if n < 10 then [digit n] else decimal (n div 10) @ [digit (n mod 10)])"
  by pat_completeness auto
termination
  by (relation "measure id") auto

definition generateId :: "nat \<Rightarrow> string \<Rightarrow> string" where
  "generateId now frac = ''task-'' @ decimal now @ ''-'' @ take 9 frac"

subsection \<open>Task management\<close>

text \<open>\<open>createTaskElement\<close>: \<open>None\<close> is the \<open>null\<close> returned for an invalid task object.\<close>

definition createTaskElement :: "json \<Rightarrow> task_element option" where
  "createTaskElement task =
     (if falsy task \<or> \<not> is_string (property task ''id'') \<or> \<not> is_string (property task ''text'')
         \<or> \<not> is_string (property task ''status'')
      then None
      else Some \<lparr>el_id = str_of (property task ''id''), el_text = str_of (property task ''text''),
                 text_done = False, lastColumn = None\<rparr>)"

text \<open>
  \<open>saveTasksToLocalStorage\<close>: one record per task element, in document order, with the
  id of the column it sits in as status. Every task element has its text span, made by
  \<open>createTaskElement\<close>, and sits in a column, so no element is passed over.
\<close>

definition task_record :: "string \<Rightarrow> task_element \<Rightarrow> json" where
  "task_record columnId e =
     JObj [(''id'', JStr (el_id e)), (''text'', JStr (el_text e)), (''status'', JStr columnId)]"

definition snapshot :: "kanban \<Rightarrow> json list" where
  "snapshot s =
     map (task_record ''todo'') (children (todoTasksContainer s))
     @ map (task_record ''inprogress'') (children (inprogressTasksContainer s))
     @ map (task_record ''done'') (children (doneTasksContainer s))"

definition saveTasksToLocalStorage :: "kanban \<Rightarrow> kanban" where
  "saveTasksToLocalStorage s =
     emit Snapshot (s\<lparr>kanbanTasks := Some (Parses (JArr (snapshot s)))\<rparr>)"

text \<open>
  \<open>addTask\<close>, with the two values \<open>generateId\<close> reads from the environment. The input is
  cleared and the snapshot taken also when the To Do container is missing.
\<close>

definition addTask :: "nat \<Rightarrow> string \<Rightarrow> kanban \<Rightarrow> kanban" where
  "addTask now frac s =
     (case taskInput s of
        None \<Rightarrow> emit ErrorLog s
      | Some inp \<Rightarrow>
          let taskTextVal = trim (inp_value inp) in
          if taskTextVal = [] then s\<lparr>taskInput := Some (inp\<lparr>inp_error_hint := True\<rparr>)\<rparr>
          else
            let newTask = JObj [(''id'', JStr (generateId now frac)),
                                (''text'', JStr taskTextVal), (''status'', JStr ''todo'')];
                s1 = (case (createTaskElement newTask, todoTasksContainer s) of
                        (Some taskElement, Some xs) \<Rightarrow>
                          s\<lparr>todoTasksContainer :=
                               Some (xs @ [taskElement\<lparr>lastColumn := Some ''todo''\<rparr>])\<rparr>
                      | (_, None) \<Rightarrow> emit ErrorLog s
                      | (None, Some xs) \<Rightarrow> s)
            in saveTasksToLocalStorage (s1\<lparr>taskInput := Some (inp\<lparr>inp_value := []\<rparr>)\<rparr>))"

text \<open>
  \<open>deleteTask\<close>. \<open>None\<close>: the lookup may have answered with a static element of the page;
  what the removal of such an element does to the page is outside this model.
\<close>

definition deleteTask :: "string list \<Rightarrow> string \<Rightarrow> kanban \<Rightarrow> kanban option" where
  "deleteTask others taskId s =
     (case getElementById others s taskId of
        TaskElement key taskElement \<Rightarrow>
          Some (saveTasksToLocalStorage
                  (set_children key (remove_el taskId (children (taskContainers s key))) s))
      | Missing \<Rightarrow> Some (emit Warning s)
      | PageElement \<Rightarrow> None)"

text \<open>
  The \<open>drop\<close> listener that \<open>initKanban\<close> puts on a column: \<open>targetColumnId\<close> is the id of the
  column, \<open>taskId\<close> the text carried by the drag. The element moves to the end of the target
  container unless that is its parent already; styling, confetti, \<open>lastColumn\<close> and the
  snapshot follow in either case. \<open>None\<close> as for \<open>deleteTask\<close>.
\<close>

definition onDrop :: "string list \<Rightarrow> string \<Rightarrow> string \<Rightarrow> kanban \<Rightarrow> kanban option" where
  "onDrop others targetColumnId taskId s =
     (case getElementById others s taskId of
        Missing \<Rightarrow> Some (emit Warning s)
      | PageElement \<Rightarrow> None
      | TaskElement parent taskElement \<Rightarrow>
          (case taskContainers s targetColumnId of
             None \<Rightarrow> Some (emit ErrorLog s)
           | Some target \<Rightarrow>
               let styled = taskElement\<lparr>text_done := (targetColumnId = ''done''),
                                         lastColumn := Some targetColumnId\<rparr>;
                   s1 = (if parent \<noteq> targetColumnId
                         then set_children targetColumnId (target @ [styled])
                                (set_children parent
                                   (remove_el taskId (children (taskContainers s parent))) s)
                         else set_children parent
                                (replace_el taskId styled (children (taskContainers s parent))) s);
                   s2 = (if targetColumnId = ''done'' \<and> lastColumn taskElement \<noteq> Some ''done''
                         then emit Confetti s1 else s1)
               in Some (saveTasksToLocalStorage s2)))"

subsection \<open>Loading\<close>

text \<open>
  The body of the \<open>forEach\<close> in \<open>loadTasksFromLocalStorage\<close>. \<open>None\<close> is the TypeError of
  \<open>task.id\<close> on \<open>null\<close>, thrown before the iteration changes anything.
\<close>

definition load_task :: "json \<Rightarrow> kanban \<Rightarrow> kanban option" where
  "load_task task s =
     (if task = JNull then None
      else if \<not> is_string (property task ''id'') \<or> \<not> is_string (property task ''text'')
              \<or> \<not> is_string (property task ''status'')
      then Some (emit Warning s)
      else
        (case createTaskElement task of
           None \<Rightarrow> Some s
         | Some taskElement \<Rightarrow>
             let status = str_of (property task ''status'') in
             (case taskContainers s status of
                Some xs \<Rightarrow>
                  Some (set_children status
                          (xs @ [taskElement\<lparr>lastColumn := Some status,
                                              text_done := (status = ''done'')\<rparr>]) s)
              | None \<Rightarrow>
                  (case todoTasksContainer s of
                     Some ys \<Rightarrow>
                       Some ((emit Warning s)\<lparr>todoTasksContainer :=
                               Some (ys @ [taskElement\<lparr>lastColumn := Some ''todo''\<rparr>])\<rparr>)
                   | None \<Rightarrow> Some (emit ErrorLog (emit Warning s))))))"

text \<open>
  \<open>tasks.forEach\<close>: \<open>Inl\<close> carries the state at the moment an iteration threw, with what the
  earlier iterations appended.
\<close>

fun forEach_load :: "json list \<Rightarrow> kanban \<Rightarrow> kanban + kanban" where
  "forEach_load [] s = Inr s"
| "forEach_load (task # tasks) s =
     (case load_task task s of
        None \<Rightarrow> Inl s
      | Some s' \<Rightarrow> forEach_load tasks s')"

definition removeItem :: "kanban \<Rightarrow> kanban" where
  "removeItem s = s\<lparr>kanbanTasks := None\<rparr>"

definition loadTasksFromLocalStorage :: "kanban \<Rightarrow> kanban" where
  "loadTasksFromLocalStorage s =
     (case kanbanTasks s of
        None \<Rightarrow> s
      | Some EmptyText \<Rightarrow> s
      | Some Malformed \<Rightarrow> removeItem (emit ErrorLog s)
      | Some (Parses (JArr tasks)) \<Rightarrow>
          (case forEach_load tasks s of
             Inr s' \<Rightarrow> s'
           | Inl s' \<Rightarrow> removeItem (emit ErrorLog s'))
      | Some (Parses other) \<Rightarrow> removeItem (emit ErrorLog s))"

subsection \<open>The page after a (re)load, and sessions\<close>

text \<open>
  A freshly loaded page: the elements that exist, empty containers, an empty input and
  the storage slot as the last session left it. \<open>initKanban\<close> wires the listeners and
  loads the stored tasks.
\<close>

definition fresh_page :: "bool \<Rightarrow> bool \<Rightarrow> bool \<Rightarrow> bool \<Rightarrow> stored option \<Rightarrow> kanban" where
  "fresh_page hasInput hasTodo hasInprogress hasDone slot =
     \<lparr>taskInput = (if hasInput then Some \<lparr>inp_value = [], inp_error_hint = False\<rparr> else None),
      todoTasksContainer = (if hasTodo then Some [] else None),
      inprogressTasksContainer = (if hasInprogress then Some [] else None),
      doneTasksContainer = (if hasDone then Some [] else None),
      kanbanTasks = slot,
      effects = []\<rparr>"

definition initKanban :: "bool \<Rightarrow> bool \<Rightarrow> bool \<Rightarrow> bool \<Rightarrow> stored option \<Rightarrow> kanban" where
  "initKanban hasInput hasTodo hasInprogress hasDone slot =
     loadTasksFromLocalStorage (fresh_page hasInput hasTodo hasInprogress hasDone slot)"

text \<open>Reloading the page: the same elements, emptied; the storage slot stays.\<close>

definition reload :: "kanban \<Rightarrow> kanban" where
  "reload s =
     initKanban (taskInput s \<noteq> None) (todoTasksContainer s \<noteq> None)
       (inprogressTasksContainer s \<noteq> None) (doneTasksContainer s \<noteq> None) (kanbanTasks s)"

text \<open>
  What the user does in a session: type a text and press Add (with the clock and random
  digits \<open>generateId\<close> will read), drop a task on a column, press a delete button.
\<close>

datatype command =
    Add string nat string
  | Move string string
  | Delete string

definition type_text :: "string \<Rightarrow> kanban \<Rightarrow> kanban" where
  "type_text t s =
     (case taskInput s of
        None \<Rightarrow> s
      | Some inp \<Rightarrow> s\<lparr>taskInput := Some (inp\<lparr>inp_value := t\<rparr>)\<rparr>)"

fun step :: "string list \<Rightarrow> kanban \<Rightarrow> command \<Rightarrow> kanban option" where
  "step others s (Add t now frac) = Some (addTask now frac (type_text t s))"
| "step others s (Move taskId targetColumnId) = onDrop others targetColumnId taskId s"
| "step others s (Delete taskId) = deleteTask others taskId s"

fun run :: "string list \<Rightarrow> command list \<Rightarrow> kanban \<Rightarrow> kanban option" where
  "run others [] s = Some s"
| "run others (c # cs) s =
     (case step others s c of
        None \<Rightarrow> None
      | Some s' \<Rightarrow> run others cs s')"

text \<open>A command whose lookup, if it makes one, is for an id of no static element.\<close>

fun names_no_page_element :: "string list \<Rightarrow> kanban \<Rightarrow> command \<Rightarrow> bool" where
  "names_no_page_element others s (Add t now frac) = True"
| "names_no_page_element others s (Move taskId targetColumnId) =
     (taskId \<notin> set (page_ids others s))"
| "names_no_page_element others s (Delete taskId) = (taskId \<notin> set (page_ids others s))"

text \<open>Which of the elements the script looks for were found in the page.\<close>

definition elements_found :: "kanban \<Rightarrow> bool \<times> bool \<times> bool \<times> bool" where
  "elements_found s =
     (taskInput s \<noteq> None, todoTasksContainer s \<noteq> None,
      inprogressTasksContainer s \<noteq> None, doneTasksContainer s \<noteq> None)"

text \<open>The board: the three column listings.\<close>

definition listByColumn :: "kanban \<Rightarrow> string \<Rightarrow> task_element list" where
  "listByColumn s key = children (taskContainers s key)"

definition board ::
  "kanban \<Rightarrow> task_element list option \<times> task_element list option \<times> task_element list option" where
  "board s = (todoTasksContainer s, inprogressTasksContainer s, doneTasksContainer s)"

definition all_tasks :: "kanban \<Rightarrow> task_element list" where
  "all_tasks s =
     children (todoTasksContainer s) @ children (inprogressTasksContainer s)
     @ children (doneTasksContainer s)"

subsection \<open>The styling invariant\<close>

text \<open>
  A task element in the container of column \<open>key\<close> carries \<open>lastColumn = key\<close>, and the
  class \<open>task-text-done\<close> exactly in the Done column. Every path that puts an element
  into a container sets both.
\<close>

definition styled_for :: "string \<Rightarrow> task_element \<Rightarrow> bool" where
  "styled_for key e = (lastColumn e = Some key \<and> text_done e = (key = ''done''))"

definition consistent :: "kanban \<Rightarrow> bool" where
  "consistent s =
     (list_all (styled_for ''todo'') (children (todoTasksContainer s))
      \<and> list_all (styled_for ''inprogress'') (children (inprogressTasksContainer s))
      \<and> list_all (styled_for ''done'') (children (doneTasksContainer s)))"

subsection \<open>What a load makes of a record\<close>

text \<open>
  For stating what \<open>loadTasksFromLocalStorage\<close> does with a whole snapshot on a page that
  has its three containers: the records it turns into task elements, the column each one
  lands in, the element it becomes, and the records it warns about. \<open>placed key\<close> is the
  listing these give for a column.
\<close>

definition record_accepted :: "json \<Rightarrow> bool" where
  "record_accepted r =
     (is_string (property r ''id'') \<and> is_string (property r ''text'')
      \<and> is_string (property r ''status''))"

definition record_column :: "json \<Rightarrow> string" where
  "record_column r =
     (if str_of (property r ''status'') \<in> set [''todo'', ''inprogress'', ''done'']
      then str_of (property r ''status'') else ''todo'')"

definition record_warned :: "json \<Rightarrow> bool" where
  "record_warned r =
     (\<not> record_accepted r
      \<or> str_of (property r ''status'') \<notin> set [''todo'', ''inprogress'', ''done''])"

definition record_element :: "json \<Rightarrow> task_element" where
  "record_element r =
     \<lparr>el_id = str_of (property r ''id''), el_text = str_of (property r ''text''),
      text_done = (record_column r = ''done''), lastColumn = Some (record_column r)\<rparr>"

definition placed :: "string \<Rightarrow> json list \<Rightarrow> task_element list" where
  "placed key records =
     map record_element (filter (\<lambda>r. record_accepted r \<and> record_column r = key) records)"

text \<open>The id a record gives its task.\<close>

definition record_id :: "json \<Rightarrow> string" where
  "record_id r = str_of (property r ''id'')"

text \<open>How many task elements on the board carry the id \<open>i\<close>.\<close>

definition id_count :: "kanban \<Rightarrow> string \<Rightarrow> nat" where
  "id_count s i = length (filter (\<lambda>e. el_id e = i) (all_tasks s))"

text \<open>How many elements of a listing carry the id \<open>i\<close>.\<close>

definition cnt :: "string \<Rightarrow> task_element list \<Rightarrow> nat" where
  "cnt i xs = length (filter (\<lambda>e. el_id e = i) xs)"

text \<open>The invariant of the board: no id is carried by two task elements.\<close>

definition unique_ids :: "kanban \<Rightarrow> bool" where
  "unique_ids s = distinct (map el_id (all_tasks s))"

section \<open>Properties\<close>

subsection \<open>Containers and lookup\<close>

lemma key_cases:
  assumes "taskContainers s key = Some xs"
  obtains "key = ''todo''" "todoTasksContainer s = Some xs"
    | "key = ''inprogress''" "inprogressTasksContainer s = Some xs"
    | "key = ''done''" "doneTasksContainer s = Some xs"
  using assms by (auto simp: taskContainers_def split: if_splits)

lemma find_id_in: "find (\<lambda>e. el_id e = i) xs = Some e \<Longrightarrow> e \<in> set xs \<and> el_id e = i"
  by (induction xs) (auto split: if_splits)

lemma find_children_Some:
  "find P (children c) = Some e \<Longrightarrow> \<exists>xs. c = Some xs"
  by (cases c) (auto simp: children_def)

lemma first_task_SomeD:
  assumes "first_task s i = Some (key, e)"
  shows "\<exists>xs. taskContainers s key = Some xs \<and> find (\<lambda>e. el_id e = i) xs = Some e"
  using assms
  by (auto simp: first_task_def taskContainers_def children_def split: option.splits)

lemma getElementById_TaskD:
  assumes "getElementById others s i = TaskElement key e"
  shows "first_task s i = Some (key, e)" and "i \<noteq> []" and "i \<notin> set (page_ids others s)"
  using assms
  by (auto simp: getElementById_def split: if_splits option.splits)

lemma getElementById_task:
  assumes "getElementById others s i = TaskElement key e"
  shows "\<exists>xs. taskContainers s key = Some xs \<and> find (\<lambda>e. el_id e = i) xs = Some e"
  using first_task_SomeD [OF getElementById_TaskD(1) [OF assms]] .

lemma getElementById_no_page_element:
  "i \<notin> set (page_ids others s) \<Longrightarrow> getElementById others s i \<noteq> PageElement"
  by (simp add: getElementById_def split: option.splits)

lemma generateId_nonempty [simp]: "generateId now frac \<noteq> []"
  by (simp add: generateId_def)

lemma list_all_remove_el: "list_all P xs \<Longrightarrow> list_all P (remove_el i xs)"
  by (induction xs) auto

lemma list_all_replace_el: "list_all P xs \<Longrightarrow> P e' \<Longrightarrow> list_all P (replace_el i e' xs)"
  by (induction xs) auto

lemma emit_fields [simp]:
  "taskInput (emit e s) = taskInput s"
  "todoTasksContainer (emit e s) = todoTasksContainer s"
  "inprogressTasksContainer (emit e s) = inprogressTasksContainer s"
  "doneTasksContainer (emit e s) = doneTasksContainer s"
  "kanbanTasks (emit e s) = kanbanTasks s"
  "effects (emit e s) = effects s @ [e]"
  "taskContainers (emit e s) key = taskContainers s key"
  by (simp_all add: emit_def taskContainers_def)

lemma consistent_upd [simp]:
  "consistent (s\<lparr>effects := fx\<rparr>) = consistent s"
  "consistent (s\<lparr>taskInput := inp\<rparr>) = consistent s"
  "consistent (s\<lparr>kanbanTasks := slot\<rparr>) = consistent s"
  by (simp_all add: consistent_def)

lemma consistent_todo_append:
  assumes "consistent s" "todoTasksContainer s = Some xs" "styled_for ''todo'' e"
  shows "consistent (s\<lparr>todoTasksContainer := Some (xs @ [e])\<rparr>)"
  using assms by (simp add: consistent_def children_def)

lemma consistent_emit [simp]: "consistent (emit e s) = consistent s"
  by (simp add: consistent_def emit_def)

lemma consistent_save [simp]: "consistent (saveTasksToLocalStorage s) = consistent s"
  by (simp add: consistent_def saveTasksToLocalStorage_def emit_def)

lemma consistent_removeItem [simp]: "consistent (removeItem s) = consistent s"
  by (simp add: consistent_def removeItem_def)

lemma consistent_type_text [simp]: "consistent (type_text t s) = consistent s"
  by (simp add: consistent_def type_text_def split: option.splits)

lemma consistent_set_children:
  assumes "consistent s" "list_all (styled_for key) xs"
  shows "consistent (set_children key xs s)"
  using assms by (auto simp: consistent_def set_children_def children_def)

lemma consistent_container:
  assumes "consistent s" "taskContainers s key = Some xs"
  shows "list_all (styled_for key) xs"
  using assms(2,1) by (cases rule: key_cases) (auto simp: consistent_def children_def)

lemma consistent_fresh_page: "consistent (fresh_page a b c d slot)"
  by (simp add: consistent_def fresh_page_def children_def)

lemma consistent_load_task:
  assumes "consistent s" "load_task task s = Some s'"
  shows "consistent s'"
proof -
  have app: "consistent (set_children k (xs @ [e]) s)"
    if "taskContainers s k = Some xs" "styled_for k e" for k xs e
    using that assms(1) consistent_container [OF assms(1) that(1)]
    by (intro consistent_set_children) auto
  show ?thesis
    using assms
    by (auto simp: load_task_def createTaskElement_def Let_def styled_for_def
        split: if_splits option.splits intro!: app consistent_todo_append)
qed

lemma consistent_forEach_load:
  assumes "consistent s"
  shows "case forEach_load tasks s of Inl s' \<Rightarrow> consistent s' | Inr s' \<Rightarrow> consistent s'"
  using assms
proof (induction tasks arbitrary: s)
  case Nil
  then show ?case by simp
next
  case (Cons task tasks)
  show ?case
  proof (cases "load_task task s")
    case None
    then show ?thesis using Cons.prems by simp
  next
    case (Some s1)
    then show ?thesis
      using Cons.IH [OF consistent_load_task [OF Cons.prems Some]] by simp
  qed
qed

lemma consistent_load:
  assumes "consistent s"
  shows "consistent (loadTasksFromLocalStorage s)"
proof -
  have "consistent (case forEach_load tasks s of Inr s' \<Rightarrow> s'
                    | Inl s' \<Rightarrow> removeItem (emit ErrorLog s'))" for tasks
    using consistent_forEach_load [OF assms, of tasks] by (simp split: sum.splits)
  then show ?thesis
    using assms
    by (simp add: loadTasksFromLocalStorage_def split: option.splits stored.splits json.splits)
qed

lemma consistent_initKanban: "consistent (initKanban a b c d slot)"
  by (simp add: initKanban_def consistent_load consistent_fresh_page)

lemma consistent_addTask:
  assumes "consistent s"
  shows "consistent (addTask now frac s)"
proof -
  show ?thesis
    using assms
    by (auto simp: addTask_def Let_def createTaskElement_def styled_for_def
        split: option.splits intro!: consistent_todo_append)
qed

lemma consistent_deleteTask:
  assumes "consistent s" and "deleteTask others taskId s = Some s'"
  shows "consistent s'"
proof (cases "getElementById others s taskId")
  case Missing
  then show ?thesis using assms by (auto simp: deleteTask_def)
next
  case PageElement
  then show ?thesis using assms by (simp add: deleteTask_def)
next
  case (TaskElement key e)
  from getElementById_task [OF TaskElement]
  obtain xs where xs: "taskContainers s key = Some xs" by blast
  have "list_all (styled_for key) (remove_el taskId xs)"
    using consistent_container [OF assms(1) xs] by (rule list_all_remove_el)
  then show ?thesis
    using TaskElement xs assms
    by (auto simp: deleteTask_def children_def consistent_set_children)
qed

lemma consistent_onDrop:
  assumes "consistent s" and "onDrop others targetColumnId taskId s = Some s'"
  shows "consistent s'"
proof (cases "getElementById others s taskId")
  case Missing
  then show ?thesis using assms by (auto simp: onDrop_def)
next
  case PageElement
  then show ?thesis using assms by (simp add: onDrop_def)
next
  case (TaskElement parent e)
  from getElementById_task [OF TaskElement]
  obtain xs where xs: "taskContainers s parent = Some xs" by blast
  show ?thesis
  proof (cases "taskContainers s targetColumnId")
    case None
    then show ?thesis using TaskElement assms by (auto simp: onDrop_def)
  next
    case tgt: (Some target)
    let ?styled = "e\<lparr>text_done := (targetColumnId = ''done''), lastColumn := Some targetColumnId\<rparr>"
    have st: "styled_for targetColumnId ?styled"
      by (simp add: styled_for_def)
    have a: "consistent (set_children parent (replace_el taskId ?styled xs) s)"
      if "parent = targetColumnId"
      using that st consistent_container [OF assms(1) xs]
      by (intro consistent_set_children [OF assms(1)] list_all_replace_el) auto
    have b: "consistent (set_children targetColumnId (target @ [?styled])
                (set_children parent (remove_el taskId xs) s))"
      using st consistent_container [OF assms(1) xs] consistent_container [OF assms(1) tgt]
      by (intro consistent_set_children assms(1) list_all_remove_el) auto
    show ?thesis
    proof (cases "parent = targetColumnId")
      case True
      then show ?thesis
        using TaskElement xs tgt a assms(2) by (auto simp: onDrop_def Let_def children_def)
    next
      case False
      then show ?thesis
        using TaskElement xs tgt b assms(2) by (auto simp: onDrop_def Let_def children_def)
    qed
  qed
qed

lemma consistent_step: "consistent s \<Longrightarrow> step others s c = Some s' \<Longrightarrow> consistent s'"
  by (cases c) (auto simp: consistent_addTask dest: consistent_onDrop consistent_deleteTask)

lemma consistent_run: "consistent s \<Longrightarrow> run others cmds s = Some s' \<Longrightarrow> consistent s'"
proof (induction cmds arbitrary: s)
  case Nil
  then show ?case by simp
next
  case (Cons c cs)
  then show ?case
    by (cases "step others s c") (auto dest: consistent_step)
qed

lemma consistent_session:
  "run others cmds (initKanban hasInput hasTodo hasInprogress hasDone slot) = Some s
   \<Longrightarrow> consistent s"
  by (rule consistent_run [OF consistent_initKanban])

subsection \<open>Saving and loading again\<close>



lemma taskContainers_set_children_other:
  assumes "taskContainers s key = Some ys" "k \<noteq> key"
  shows "taskContainers (set_children key xs s) k = taskContainers s k"
  using assms
  by (cases rule: key_cases) (auto simp: taskContainers_def set_children_def)

lemma is_string_not_falsy: "is_string (property r k) \<Longrightarrow> \<not> falsy r"
  by (cases r) simp_all

lemma load_task_rejected:
  "\<not> record_accepted r \<Longrightarrow> load_task r s = (if r = JNull then None else Some (emit Warning s))"
  by (auto simp: load_task_def record_accepted_def)

lemma load_task_accepted:
  assumes "record_accepted r"
  shows "load_task r s =
     (case taskContainers s (str_of (property r ''status'')) of
        Some xs \<Rightarrow>
          Some (set_children (str_of (property r ''status''))
                  (xs @ [\<lparr>el_id = record_id r, el_text = str_of (property r ''text''),
                          text_done = (str_of (property r ''status'') = ''done''),
                          lastColumn = Some (str_of (property r ''status''))\<rparr>]) s)
      | None \<Rightarrow>
          (case todoTasksContainer s of
             Some ys \<Rightarrow>
               Some ((emit Warning s)\<lparr>todoTasksContainer :=
                       Some (ys @ [\<lparr>el_id = record_id r, el_text = str_of (property r ''text''),
                                    text_done = False, lastColumn = Some ''todo''\<rparr>])\<rparr>)
           | None \<Rightarrow> Some (emit ErrorLog (emit Warning s))))"
proof -
  from assms have str: "is_string (property r ''id'')" "is_string (property r ''text'')"
    "is_string (property r ''status'')"
    by (simp_all add: record_accepted_def)
  have nn: "r \<noteq> JNull" using str(1) by auto
  have nf: "\<not> falsy r" by (rule is_string_not_falsy [OF str(1)])
  have c: "createTaskElement r = Some \<lparr>el_id = record_id r,
      el_text = str_of (property r ''text''), text_done = False, lastColumn = None\<rparr>"
    using str nf by (simp add: createTaskElement_def record_id_def)
  show ?thesis
    using str nn by (simp add: load_task_def c Let_def split: option.splits)
qed

lemma set_children_twice:
  "set_children key zs (set_children key ys t) = set_children key zs t"
  by (simp add: set_children_def)




subsection \<open>The static elements stay\<close>

lemma page_ids_cong:
  "elements_found s' = elements_found s \<Longrightarrow> page_ids others s' = page_ids others s"
  by (simp add: elements_found_def page_ids_def)


lemma elements_found_upd [simp]:
  "elements_found (s\<lparr>effects := fx\<rparr>) = elements_found s"
  "elements_found (s\<lparr>kanbanTasks := slot\<rparr>) = elements_found s"
  "elements_found (s\<lparr>taskInput := Some inp\<rparr>) = (True, snd (elements_found s))"
  by (simp_all add: elements_found_def)

lemma elements_found_emit [simp]: "elements_found (emit x s) = elements_found s"
  by (simp add: emit_def)

lemma elements_found_save [simp]:
  "elements_found (saveTasksToLocalStorage s) = elements_found s"
  by (simp add: saveTasksToLocalStorage_def)

lemma elements_found_removeItem [simp]: "elements_found (removeItem s) = elements_found s"
  by (simp add: removeItem_def)

lemma elements_found_set_children:
  "taskContainers s key = Some ys \<Longrightarrow> elements_found (set_children key xs s) = elements_found s"
  by (erule key_cases) (simp_all add: elements_found_def set_children_def)

lemma elements_found_todo:
  "todoTasksContainer s = Some ys
   \<Longrightarrow> elements_found (s\<lparr>todoTasksContainer := Some xs\<rparr>) = elements_found s"
  by (simp add: elements_found_def)

lemma elements_found_type_text [simp]: "elements_found (type_text t s) = elements_found s"
  by (cases "taskInput s") (simp_all add: type_text_def elements_found_def)

lemma elements_found_addTask [simp]: "elements_found (addTask now frac s) = elements_found s"
proof (cases "taskInput s")
  case None
  then show ?thesis by (simp add: addTask_def)
next
  case (Some inp)
  show ?thesis
  proof (cases "trim (inp_value inp) = []")
    case True
    then show ?thesis using Some by (simp add: addTask_def elements_found_def)
  next
    case False
    show ?thesis
    proof (cases "todoTasksContainer s")
      case None
      then show ?thesis
        using Some False
        by (simp add: addTask_def Let_def createTaskElement_def elements_found_def
            saveTasksToLocalStorage_def emit_def)
    next
      case todo: (Some xs)
      then show ?thesis
        using Some False
        by (simp add: addTask_def Let_def createTaskElement_def elements_found_def
            saveTasksToLocalStorage_def emit_def)
    qed
  qed
qed

lemma elements_found_deleteTask:
  assumes "deleteTask others taskId s = Some s'"
  shows "elements_found s' = elements_found s"
proof (cases "getElementById others s taskId")
  case Missing
  then show ?thesis using assms by (auto simp: deleteTask_def)
next
  case PageElement
  then show ?thesis using assms by (simp add: deleteTask_def)
next
  case (TaskElement key e)
  from getElementById_task [OF TaskElement]
  obtain xs where xs: "taskContainers s key = Some xs" by blast
  show ?thesis
    using TaskElement assms elements_found_set_children [OF xs]
    by (auto simp: deleteTask_def)
qed

lemma elements_found_onDrop:
  assumes "onDrop others targetColumnId taskId s = Some s'"
  shows "elements_found s' = elements_found s"
proof (cases "getElementById others s taskId")
  case Missing
  then show ?thesis using assms by (auto simp: onDrop_def)
next
  case PageElement
  then show ?thesis using assms by (simp add: onDrop_def)
next
  case (TaskElement parent e)
  from getElementById_task [OF TaskElement]
  obtain xs where xs: "taskContainers s parent = Some xs" by blast
  show ?thesis
  proof (cases "taskContainers s targetColumnId")
    case None
    then show ?thesis using TaskElement assms by (auto simp: onDrop_def)
  next
    case tgt: (Some target)
    have 1: "elements_found (set_children parent zs s) = elements_found s" for zs
      by (rule elements_found_set_children [OF xs])
    have 2: "elements_found (set_children targetColumnId ws (set_children parent zs s))
               = elements_found s" for ws zs
    proof (cases "parent = targetColumnId")
      case True
      then show ?thesis
        using 1 by (simp add: set_children_twice)
    next
      case False
      then have "taskContainers (set_children parent zs s) targetColumnId = Some target"
        using tgt taskContainers_set_children_other [OF xs, of targetColumnId zs] by simp
      from elements_found_set_children [OF this] 1 show ?thesis by simp
    qed
    define u where "u = (if parent \<noteq> targetColumnId
        then set_children targetColumnId
               (target @ [e\<lparr>text_done := (targetColumnId = ''done''),
                              lastColumn := Some targetColumnId\<rparr>])
               (set_children parent (remove_el taskId (children (taskContainers s parent))) s)
        else set_children parent
               (replace_el taskId (e\<lparr>text_done := (targetColumnId = ''done''),
                              lastColumn := Some targetColumnId\<rparr>)
                  (children (taskContainers s parent))) s)"
    have u: "elements_found u = elements_found s"
      unfolding u_def
      by (cases "parent = targetColumnId")
         (simp_all add: 1 2 elements_found_set_children [OF tgt])
    have "s' = saveTasksToLocalStorage
            (if targetColumnId = ''done'' \<and> lastColumn e \<noteq> Some ''done''
             then emit Confetti u else u)"
      using TaskElement tgt assms unfolding u_def onDrop_def Let_def by simp
    then show ?thesis using u by simp
  qed
qed

lemma elements_found_step:
  "step others s c = Some s' \<Longrightarrow> elements_found s' = elements_found s"
  by (cases c) (auto dest: elements_found_onDrop elements_found_deleteTask)

lemma elements_found_run:
  "run others cmds s = Some s' \<Longrightarrow> elements_found s' = elements_found s"
proof (induction cmds arbitrary: s)
  case Nil
  then show ?case by simp
next
  case (Cons c cs)
  then show ?case
    by (cases "step others s c") (auto dest: elements_found_step)
qed

lemma elements_found_load_task:
  assumes "load_task r s = Some s'"
  shows "elements_found s' = elements_found s"
proof (cases "record_accepted r")
  case False
  then show ?thesis
    using assms by (auto simp: load_task_rejected split: if_splits)
next
  case True
  show ?thesis
  proof (cases "taskContainers s (str_of (property r ''status''))")
    case (Some xs)
    then show ?thesis
      using assms elements_found_set_children [OF Some]
      by (auto simp: load_task_accepted [OF True])
  next
    case None
    then show ?thesis
      using assms
      by (cases "todoTasksContainer s")
         (auto simp: load_task_accepted [OF True] elements_found_def)
  qed
qed

lemma elements_found_forEach_load:
  "elements_found (case forEach_load tasks s of Inl s' \<Rightarrow> s' | Inr s' \<Rightarrow> s') = elements_found s"
proof (induction tasks arbitrary: s)
  case Nil
  then show ?case by simp
next
  case (Cons task tasks)
  show ?case
  proof (cases "load_task task s")
    case None
    then show ?thesis by simp
  next
    case (Some s1)
    then show ?thesis
      using Cons [of s1] elements_found_load_task [OF Some] by simp
  qed
qed

lemma elements_found_load [simp]:
  "elements_found (loadTasksFromLocalStorage s) = elements_found s"
proof -
  have "elements_found (case forEach_load tasks s of Inr s' \<Rightarrow> s'
                    | Inl s' \<Rightarrow> removeItem (emit ErrorLog s')) = elements_found s" for tasks
    using elements_found_forEach_load [of tasks s] by (simp split: sum.splits)
  then show ?thesis
    by (simp add: loadTasksFromLocalStorage_def split: option.splits stored.splits json.splits)
qed

lemma step_in_model:
  "names_no_page_element others s c \<Longrightarrow> \<exists>s'. step others s c = Some s'"
proof (cases c)
  case (Add t now frac)
  then show ?thesis by simp
next
  case (Move taskId targetColumnId)
  assume "names_no_page_element others s c"
  then have n: "getElementById others s taskId \<noteq> PageElement"
    using Move by (simp add: getElementById_no_page_element)
  show ?thesis
  proof (cases "getElementById others s taskId")
    case Missing
    then show ?thesis using Move by (simp add: onDrop_def)
  next
    case PageElement
    then show ?thesis using n by simp
  next
    case (TaskElement parent e)
    then show ?thesis
      using Move
      by (cases "taskContainers s targetColumnId") (simp_all add: onDrop_def Let_def)
  qed
next
  case (Delete taskId)
  assume "names_no_page_element others s c"
  then have "getElementById others s taskId \<noteq> PageElement"
    using Delete by (simp add: getElementById_no_page_element)
  then show ?thesis
    using Delete
    by (cases "getElementById others s taskId") (simp_all add: deleteTask_def)
qed


lemmas kanban_defs =
  initKanban_def fresh_page_def loadTasksFromLocalStorage_def addTask_def
  type_text_def onDrop_def deleteTask_def getElementById_def first_task_def page_ids_def
  taskContainers_def
  set_children_def children_def saveTasksToLocalStorage_def snapshot_def emit_def
  createTaskElement_def trim_def is_space_def task_record_def board_def Let_def
  load_task_def removeItem_def reload_def all_tasks_def listByColumn_def

lemmas record_defs =
  placed_def record_accepted_def record_column_def record_warned_def record_element_def

section \<open>The claims\<close>



text \<open>
  C4. When the trimmed input is empty (the empty text and a text of blanks included),
  \<open>addTask\<close> only shows the hint on the input: no container changes, nothing is written
  to the storage slot, no snapshot or other effect is recorded, and the number of tasks
  stays what it was.
\<close>

theorem addTask_blank_rejected:
  assumes "taskInput s = Some inp" and "trim (inp_value inp) = []"
  shows "addTask now frac s = s\<lparr>taskInput := Some (inp\<lparr>inp_error_hint := True\<rparr>)\<rparr>
       \<and> board (addTask now frac s) = board s
       \<and> kanbanTasks (addTask now frac s) = kanbanTasks s
       \<and> effects (addTask now frac s) = effects s
       \<and> length (all_tasks (addTask now frac s)) = length (all_tasks s)"
  using assms by (simp add: addTask_def board_def all_tasks_def)

theorem addTask_blank_rejected_witness:
  "trim '''' = [] \<and> trim ''   '' = []
   \<and> addTask 5 ''abc'' (type_text ''   '' (initKanban True True True True None))
       = (initKanban True True True True None)
           \<lparr>taskInput := Some \<lparr>inp_value = ''   '', inp_error_hint = True\<rparr>\<rparr>
   \<and> board (addTask 5 ''abc'' (type_text ''   '' (initKanban True True True True None)))
       = (Some [], Some [], Some [])
   \<and> effects (addTask 5 ''abc'' (type_text ''   '' (initKanban True True True True None))) = []
   \<and> addTask 5 ''abc'' (type_text '''' (initKanban True True True True None))
       = (initKanban True True True True None)
           \<lparr>taskInput := Some \<lparr>inp_value = '''', inp_error_hint = True\<rparr>\<rparr>"
  using addTask_blank_rejected [of "type_text ''   '' (initKanban True True True True None)"
      "\<lparr>inp_value = ''   '', inp_error_hint = False\<rparr>" 5 "''abc''"]
    addTask_blank_rejected [of "type_text '''' (initKanban True True True True None)"
      "\<lparr>inp_value = '''', inp_error_hint = False\<rparr>" 5 "''abc''"]
  by (simp add: kanban_defs)

subsection \<open>Dropping a task on the column it is in\<close>

lemma replace_el_same:
  "find (\<lambda>x. el_id x = i) xs = Some e \<Longrightarrow> replace_el i e xs = xs"
  by (induction xs) (auto split: if_splits)

lemma set_children_same:
  "taskContainers s key = Some xs \<Longrightarrow> set_children key xs s = s"
  by (erule key_cases) (simp_all add: set_children_def)

lemma onDrop_same_column:
  assumes "consistent s" and "getElementById others s i = TaskElement key e"
  shows "onDrop others key i s = Some (saveTasksToLocalStorage s)"
proof -
  from getElementById_task [OF assms(2)]
  obtain xs where xs: "taskContainers s key = Some xs"
    and f: "find (\<lambda>x. el_id x = i) xs = Some e" by blast
  have "e \<in> set xs" using find_id_in [OF f] by simp
  then have st: "styled_for key e"
    using consistent_container [OF assms(1) xs] by (simp add: list_all_iff)
  then have e: "e\<lparr>text_done := (key = ''done''), lastColumn := Some key\<rparr> = e"
    by (simp add: styled_for_def)
  have nc: "\<not> (key = ''done'' \<and> lastColumn e \<noteq> Some ''done'')"
    using st by (auto simp: styled_for_def)
  show ?thesis
    using assms(2) xs nc
    by (auto simp: onDrop_def Let_def e children_def replace_el_same [OF f]
        set_children_same [OF xs])
qed

text \<open>
  C3, as the code has it. The claim says that a move of a task to its current column takes
  no snapshot. The drop listener guards only the \<open>appendChild\<close> by the comparison of the
  containers; \<open>saveTasksToLocalStorage\<close> runs after it in either case. The counterexample
  adds a task and drops it on To Do, where it is: a second snapshot is recorded.
\<close>

theorem move_to_current_column_snapshot_counterexample:
  "map_option effects
     (run [''addTaskBtn''] [Add ''Write spec'' 5 ''abc''] (initKanban True True True True None))
     = Some [Snapshot]
   \<and> map_option (\<lambda>s. listByColumn s ''todo'')
     (run [''addTaskBtn''] [Add ''Write spec'' 5 ''abc''] (initKanban True True True True None))
     = Some [\<lparr>el_id = ''task-5-abc'', el_text = ''Write spec'', text_done = False,
               lastColumn = Some ''todo''\<rparr>]
   \<and> map_option effects
     (run [''addTaskBtn''] [Add ''Write spec'' 5 ''abc'', Move ''task-5-abc'' ''todo'']
        (initKanban True True True True None))
     = Some [Snapshot, Snapshot]"
  by (simp add: kanban_defs generateId_def digit_def)

text \<open>
  C3, amended. Take a state of a session and an id for which \<open>document.getElementById\<close>
  answers with a task element: the id is not empty, no static element of the page carries
  it, and it is the id of a task, the first in document order if there are several.
  Dropping that id on the column the element is in leaves the three containers (and the
  input) exactly as they were, and takes one snapshot, which writes the unchanged board to
  the storage slot.
\<close>

theorem move_to_current_column:
  assumes "run others cmds (initKanban hasInput hasTodo hasInprogress hasDone slot) = Some s"
    and "getElementById others s i = TaskElement key e"
  shows "\<exists>s'. onDrop others key i s = Some s'
           \<and> board s' = board s
           \<and> taskInput s' = taskInput s
           \<and> effects s' = effects s @ [Snapshot]
           \<and> kanbanTasks s' = Some (Parses (JArr (snapshot s)))"
proof -
  from onDrop_same_column [OF consistent_session [OF assms(1)] assms(2)] show ?thesis
    by (simp add: saveTasksToLocalStorage_def emit_def board_def)
qed

theorem move_to_current_column_witness:
  "\<exists>s'. onDrop [''addTaskBtn''] ''todo'' ''task-5-abc''
           (addTask 5 ''abc'' (type_text ''Write spec'' (initKanban True True True True None)))
         = Some s'
     \<and> board s' = (Some [\<lparr>el_id = ''task-5-abc'', el_text = ''Write spec'',
                             text_done = False, lastColumn = Some ''todo''\<rparr>], Some [], Some [])
     \<and> effects s' = [Snapshot, Snapshot]"
proof -
  let ?s = "addTask 5 ''abc'' (type_text ''Write spec'' (initKanban True True True True None))"
  let ?e = "\<lparr>el_id = ''task-5-abc'', el_text = ''Write spec'',
              text_done = False, lastColumn = Some ''todo''\<rparr>"
  have r: "run [''addTaskBtn''] [Add ''Write spec'' 5 ''abc'']
             (initKanban True True True True None) = Some ?s"
    by simp
  have s: "board ?s = (Some [?e], Some [], Some [])" "effects ?s = [Snapshot]"
    by (simp_all add: kanban_defs generateId_def digit_def)
  have g: "getElementById [''addTaskBtn''] ?s ''task-5-abc'' = TaskElement ''todo'' ?e"
    by (simp add: kanban_defs generateId_def digit_def)
  from move_to_current_column [OF r g] s show ?thesis by auto
qed

subsection \<open>Effects and listings of the operations\<close>

lemma effects_set_children [simp]: "effects (set_children key xs s) = effects s"
  by (simp add: set_children_def)

lemma effects_save [simp]: "effects (saveTasksToLocalStorage s) = effects s @ [Snapshot]"
  by (simp add: saveTasksToLocalStorage_def)

lemma listByColumn_save [simp]:
  "listByColumn (saveTasksToLocalStorage s) key = listByColumn s key"
  by (simp add: saveTasksToLocalStorage_def listByColumn_def taskContainers_def emit_def)

lemma listByColumn_emit [simp]: "listByColumn (emit x s) key = listByColumn s key"
  by (simp add: listByColumn_def)

lemma listByColumn_set_children:
  assumes "taskContainers s key = Some ys"
  shows "listByColumn (set_children key xs s) k = (if k = key then xs else listByColumn s k)"
  using assms
  by (cases rule: key_cases)
     (auto simp: listByColumn_def taskContainers_def set_children_def children_def)



subsection \<open>Loading a snapshot on a page with its three containers\<close>

lemma load_task_present:
  assumes "r \<noteq> JNull" and "todoTasksContainer s = Some a"
    and "inprogressTasksContainer s = Some b" and "doneTasksContainer s = Some c"
  shows "\<exists>s1. load_task r s = Some s1
     \<and> todoTasksContainer s1 = Some (a @ placed ''todo'' [r])
     \<and> inprogressTasksContainer s1 = Some (b @ placed ''inprogress'' [r])
     \<and> doneTasksContainer s1 = Some (c @ placed ''done'' [r])
     \<and> effects s1 = effects s @ (if record_warned r then [Warning] else [])
     \<and> kanbanTasks s1 = kanbanTasks s \<and> taskInput s1 = taskInput s"
proof (cases "record_accepted r")
  case False
  then show ?thesis
    using assms
    by (auto simp: load_task_def record_accepted_def record_warned_def placed_def)
next
  case True
  then have nf: "\<not> falsy r"
    by (auto simp: record_accepted_def dest: is_string_not_falsy)
  show ?thesis
    using assms True nf
    by (auto simp: load_task_def createTaskElement_def record_accepted_def record_warned_def
        placed_def record_column_def record_element_def taskContainers_def set_children_def
        emit_def)
qed

lemma placed_Cons: "placed key (r # rs) = placed key [r] @ placed key rs"
  by (simp add: placed_def)

lemma forEach_load_present:
  assumes "JNull \<notin> set records" and "todoTasksContainer s = Some a"
    and "inprogressTasksContainer s = Some b" and "doneTasksContainer s = Some c"
  shows "\<exists>s'. forEach_load records s = Inr s'
     \<and> todoTasksContainer s' = Some (a @ placed ''todo'' records)
     \<and> inprogressTasksContainer s' = Some (b @ placed ''inprogress'' records)
     \<and> doneTasksContainer s' = Some (c @ placed ''done'' records)
     \<and> effects s' = effects s @ map (\<lambda>r. Warning) (filter record_warned records)
     \<and> kanbanTasks s' = kanbanTasks s \<and> taskInput s' = taskInput s"
  using assms
proof (induction records arbitrary: s a b c)
  case Nil
  then show ?case by (simp add: placed_def)
next
  case (Cons r rs)
  from Cons.prems have r: "r \<noteq> JNull" and rs: "JNull \<notin> set rs" by auto
  from load_task_present [OF r Cons.prems(2-4)]
  obtain s1 where s1: "load_task r s = Some s1"
    "todoTasksContainer s1 = Some (a @ placed ''todo'' [r])"
    "inprogressTasksContainer s1 = Some (b @ placed ''inprogress'' [r])"
    "doneTasksContainer s1 = Some (c @ placed ''done'' [r])"
    "effects s1 = effects s @ (if record_warned r then [Warning] else [])"
    "kanbanTasks s1 = kanbanTasks s" "taskInput s1 = taskInput s"
    by blast
  from Cons.IH [OF rs s1(2-4)]
  obtain s' where s': "forEach_load rs s1 = Inr s'"
    "todoTasksContainer s' = Some ((a @ placed ''todo'' [r]) @ placed ''todo'' rs)"
    "inprogressTasksContainer s' = Some ((b @ placed ''inprogress'' [r]) @ placed ''inprogress'' rs)"
    "doneTasksContainer s' = Some ((c @ placed ''done'' [r]) @ placed ''done'' rs)"
    "effects s' = effects s1 @ map (\<lambda>r. Warning) (filter record_warned rs)"
    "kanbanTasks s' = kanbanTasks s1" "taskInput s' = taskInput s1"
    by blast
  show ?case
    using s1 s' by (simp add: placed_Cons [of _ r rs])
qed

text \<open>
  C1, as the code has it. The claim says that a record whose column is not one of the
  three known ones contributes no task and is never defaulted into To Do. The load path
  has an explicit fallback for a status without a container: it warns and appends the
  task to To Do. The counterexample loads one record for Done and one with status
  \<open>archived\<close>: the second one is listed in To Do.
\<close>

theorem load_unknown_column_counterexample:
  "listByColumn (initKanban True True True True (Some (Parses (JArr
      [JObj [(''id'', JStr ''a''), (''text'', JStr ''x''), (''status'', JStr ''done'')],
       JObj [(''id'', JStr ''b''), (''text'', JStr ''y''), (''status'', JStr ''archived'')]]))))
     ''todo''
   = [\<lparr>el_id = ''b'', el_text = ''y'', text_done = False, lastColumn = Some ''todo''\<rparr>]"
  by (simp add: kanban_defs)

text \<open>
  C1, amended. On a page with its three containers, for every stored array without a
  \<open>null\<close> element: a record becomes a task exactly when its id, text and status are
  strings (empty ones included); such a record lands in the column its status names, and
  in To Do, with a warning, when the status names none of the three; every other record
  is skipped with a warning and contributes no task; the order of the records is kept in
  each column, and the storage slot is left as it was.
\<close>

theorem load_records_placement:
  assumes "JNull \<notin> set records"
    and "s' = initKanban hasInput True True True (Some (Parses (JArr records)))"
  shows "listByColumn s' ''todo'' = placed ''todo'' records
       \<and> listByColumn s' ''inprogress'' = placed ''inprogress'' records
       \<and> listByColumn s' ''done'' = placed ''done'' records
       \<and> effects s' = map (\<lambda>r. Warning) (filter record_warned records)
       \<and> kanbanTasks s' = Some (Parses (JArr records))"
proof -
  let ?fp = "fresh_page hasInput True True True (Some (Parses (JArr records)))"
  from forEach_load_present [OF assms(1), of ?fp "[]" "[]" "[]"]
  obtain t where t: "forEach_load records ?fp = Inr t"
    "todoTasksContainer t = Some (placed ''todo'' records)"
    "inprogressTasksContainer t = Some (placed ''inprogress'' records)"
    "doneTasksContainer t = Some (placed ''done'' records)"
    "effects t = map (\<lambda>r. Warning) (filter record_warned records)"
    "kanbanTasks t = Some (Parses (JArr records))"
    by (auto simp: fresh_page_def)
  have "s' = t"
    unfolding assms(2) initKanban_def loadTasksFromLocalStorage_def
    using t(1) by (simp add: fresh_page_def)
  then show ?thesis
    using t by (simp add: listByColumn_def taskContainers_def children_def)
qed

theorem load_records_placement_witness:
  "listByColumn (initKanban True True True True (Some (Parses (JArr
      [JObj [(''id'', JStr ''a''), (''text'', JStr ''x''), (''status'', JStr ''done'')],
       JObj [(''id'', JStr ''b''), (''text'', JStr ''y''), (''status'', JStr ''archived'')],
       JObj [(''id'', JNum 7), (''text'', JStr ''z''), (''status'', JStr ''todo'')],
       JNum 5,
       JObj [(''id'', JStr ''''), (''text'', JStr ''''), (''status'', JStr ''inprogress'')]]))))
     ''todo''
   = [\<lparr>el_id = ''b'', el_text = ''y'', text_done = False, lastColumn = Some ''todo''\<rparr>]
   \<and> listByColumn (initKanban True True True True (Some (Parses (JArr
      [JObj [(''id'', JStr ''a''), (''text'', JStr ''x''), (''status'', JStr ''done'')],
       JObj [(''id'', JStr ''b''), (''text'', JStr ''y''), (''status'', JStr ''archived'')],
       JObj [(''id'', JNum 7), (''text'', JStr ''z''), (''status'', JStr ''todo'')],
       JNum 5,
       JObj [(''id'', JStr ''''), (''text'', JStr ''''), (''status'', JStr ''inprogress'')]]))))
     ''inprogress''
   = [\<lparr>el_id = '''', el_text = '''', text_done = False, lastColumn = Some ''inprogress''\<rparr>]
   \<and> listByColumn (initKanban True True True True (Some (Parses (JArr
      [JObj [(''id'', JStr ''a''), (''text'', JStr ''x''), (''status'', JStr ''done'')],
       JObj [(''id'', JStr ''b''), (''text'', JStr ''y''), (''status'', JStr ''archived'')],
       JObj [(''id'', JNum 7), (''text'', JStr ''z''), (''status'', JStr ''todo'')],
       JNum 5,
       JObj [(''id'', JStr ''''), (''text'', JStr ''''), (''status'', JStr ''inprogress'')]]))))
     ''done''
   = [\<lparr>el_id = ''a'', el_text = ''x'', text_done = True, lastColumn = Some ''done''\<rparr>]
   \<and> effects (initKanban True True True True (Some (Parses (JArr
      [JObj [(''id'', JStr ''a''), (''text'', JStr ''x''), (''status'', JStr ''done'')],
       JObj [(''id'', JStr ''b''), (''text'', JStr ''y''), (''status'', JStr ''archived'')],
       JObj [(''id'', JNum 7), (''text'', JStr ''z''), (''status'', JStr ''todo'')],
       JNum 5,
       JObj [(''id'', JStr ''''), (''text'', JStr ''''), (''status'', JStr ''inprogress'')]]))))
   = [Warning, Warning, Warning]"
  using load_records_placement [OF _ refl, of
      "[JObj [(''id'', JStr ''a''), (''text'', JStr ''x''), (''status'', JStr ''done'')],
       JObj [(''id'', JStr ''b''), (''text'', JStr ''y''), (''status'', JStr ''archived'')],
       JObj [(''id'', JNum 7), (''text'', JStr ''z''), (''status'', JStr ''todo'')],
       JNum 5,
       JObj [(''id'', JStr ''''), (''text'', JStr ''''), (''status'', JStr ''inprogress'')]]"
      True]
  by (simp add: record_defs)

text \<open>
  C7, as the code has it. The claim says that the slot is cleared whenever its content
  cannot be parsed. The empty text cannot be parsed, but \<open>if (storedTasks)\<close> takes it for
  an absent slot: nothing is parsed and nothing is removed.
\<close>

theorem empty_text_slot_kept_counterexample:
  "kanbanTasks (initKanban True True True True (Some EmptyText)) = Some EmptyText"
  by (simp add: kanban_defs)

text \<open>
  C7, amended. When the slot holds a non-empty text that \<open>JSON.parse\<close> rejects, or one that
  parses to something that is not an array (a single number, say), the page starts with no
  task, the slot is removed and one error is logged; the load itself does not throw, the
  only exception of its body being caught by its \<open>try\<close>. When the slot holds the empty
  text, the page starts with no task as well and the slot keeps the empty text.
\<close>

theorem corrupt_slot_cleared:
  assumes "slot = Some Malformed \<or> (\<exists>v. slot = Some (Parses v) \<and> (\<forall>tasks. v \<noteq> JArr tasks))"
  shows "initKanban hasInput hasTodo hasInprogress hasDone slot
           = (fresh_page hasInput hasTodo hasInprogress hasDone None)\<lparr>effects := [ErrorLog]\<rparr>
       \<and> kanbanTasks (initKanban hasInput hasTodo hasInprogress hasDone slot) = None
       \<and> all_tasks (initKanban hasInput hasTodo hasInprogress hasDone slot) = []
       \<and> initKanban hasInput hasTodo hasInprogress hasDone (Some EmptyText)
           = fresh_page hasInput hasTodo hasInprogress hasDone (Some EmptyText)
       \<and> all_tasks (initKanban hasInput hasTodo hasInprogress hasDone (Some EmptyText)) = []"
proof -
  have e: "initKanban hasInput hasTodo hasInprogress hasDone (Some EmptyText)
           = fresh_page hasInput hasTodo hasInprogress hasDone (Some EmptyText)"
    by (simp add: initKanban_def loadTasksFromLocalStorage_def fresh_page_def)
  have "initKanban hasInput hasTodo hasInprogress hasDone slot
           = (fresh_page hasInput hasTodo hasInprogress hasDone None)\<lparr>effects := [ErrorLog]\<rparr>"
    using assms
  proof
    assume "slot = Some Malformed"
    then show ?thesis
      by (simp add: initKanban_def loadTasksFromLocalStorage_def fresh_page_def removeItem_def
          emit_def)
  next
    assume "\<exists>v. slot = Some (Parses v) \<and> (\<forall>tasks. v \<noteq> JArr tasks)"
    then obtain v where "slot = Some (Parses v)" "\<forall>tasks. v \<noteq> JArr tasks" by blast
    then show ?thesis
      by (cases v)
         (simp_all add: initKanban_def loadTasksFromLocalStorage_def fresh_page_def
            removeItem_def emit_def)
  qed
  then show ?thesis
    using e by (simp add: fresh_page_def all_tasks_def children_def)
qed

theorem corrupt_slot_cleared_witness:
  "initKanban True True True True (Some (Parses (JNum 5)))
     = (fresh_page True True True True None)\<lparr>effects := [ErrorLog]\<rparr>
   \<and> kanbanTasks (initKanban True True True True (Some (Parses (JNum 5)))) = None
   \<and> all_tasks (initKanban True True True True (Some (Parses (JNum 5)))) = []
   \<and> kanbanTasks (initKanban True True True True (Some Malformed)) = None
   \<and> all_tasks (initKanban True True True True (Some Malformed)) = []"
  using corrupt_slot_cleared [of "Some (Parses (JNum 5))" True True True True]
    corrupt_slot_cleared [of "Some Malformed" True True True True]
  by (simp add: fresh_page_def all_tasks_def children_def)

subsection \<open>Adding a task\<close>

text \<open>
  On a page with the task input and the To Do container, for every input whose trimmed
  text is not empty, \<open>addTask\<close> appends to To Do a task with the id \<open>generateId\<close> gives and
  the trimmed text, leaves the other columns alone, and takes one snapshot, which stores
  the board with the new task. The board then carries that id once more than before.
\<close>

lemma addTask_appends:
  assumes "taskInput s = Some inp" and "trim (inp_value inp) \<noteq> []"
    and "todoTasksContainer s = Some xs"
  shows "listByColumn (addTask now frac s) ''todo''
           = xs @ [\<lparr>el_id = generateId now frac, el_text = trim (inp_value inp),
                    text_done = False, lastColumn = Some ''todo''\<rparr>]
       \<and> listByColumn (addTask now frac s) ''inprogress'' = listByColumn s ''inprogress''
       \<and> listByColumn (addTask now frac s) ''done'' = listByColumn s ''done''
       \<and> effects (addTask now frac s) = effects s @ [Snapshot]
       \<and> kanbanTasks (addTask now frac s)
           = Some (Parses (JArr (snapshot (addTask now frac s))))
       \<and> id_count (addTask now frac s) (generateId now frac)
           = Suc (id_count s (generateId now frac))"
  using assms
  by (simp add: addTask_def Let_def createTaskElement_def listByColumn_def taskContainers_def
      children_def saveTasksToLocalStorage_def emit_def snapshot_def id_count_def all_tasks_def)

lemma addTask_appends_example:
  "listByColumn (addTask 5 ''abc'' (type_text '' Write spec '' (initKanban True True True True None)))
     ''todo''
     = [\<lparr>el_id = generateId 5 ''abc'', el_text = ''Write spec'',
         text_done = False, lastColumn = Some ''todo''\<rparr>]
   \<and> effects (addTask 5 ''abc'' (type_text '' Write spec '' (initKanban True True True True None)))
     = [Snapshot]
   \<and> kanbanTasks (addTask 5 ''abc'' (type_text '' Write spec '' (initKanban True True True True None)))
     = Some (Parses (JArr [JObj [(''id'', JStr (generateId 5 ''abc'')),
          (''text'', JStr ''Write spec''), (''status'', JStr ''todo'')]]))
   \<and> id_count (addTask 5 ''abc'' (type_text '' Write spec '' (initKanban True True True True None)))
        (generateId 5 ''abc'') = 1"
  using addTask_appends [of "type_text '' Write spec '' (initKanban True True True True None)"
      "\<lparr>inp_value = '' Write spec '', inp_error_hint = False\<rparr>" "[]" 5 "''abc''"]
  by (simp add: kanban_defs id_count_def)

text \<open>
  C5. The claim says that \<open>addTask\<close> allocates a fresh unique id, and the documentation of
  \<open>generateId\<close> says that it returns a unique id. \<open>generateId\<close> joins the clock and nine
  digits of a random number and looks at no task on the board: when two adds meet the
  same clock value and \<open>Math.random()\<close> answers 0.5 (\<open>0.i\<close> in base 36) both times, both tasks
  carry the same id.
\<close>

theorem addTask_id_collision:
  "generateId 1762041600000 ''i'' = ''task-1762041600000-i''
   \<and> map_option (\<lambda>s. map el_id (listByColumn s ''todo''))
        (run [''addTaskBtn''] [Add ''a'' 1762041600000 ''i'', Add ''b'' 1762041600000 ''i'']
           (initKanban True True True True None))
     = Some [''task-1762041600000-i'', ''task-1762041600000-i'']"
proof -
  have g: "generateId 1762041600000 ''i'' = ''task-1762041600000-i''"
    by (simp add: generateId_def digit_def)
  have "map_option (\<lambda>s. map el_id (listByColumn s ''todo''))
        (run [''addTaskBtn''] [Add ''a'' 1762041600000 ''i'', Add ''b'' 1762041600000 ''i'']
           (initKanban True True True True None))
     = Some [generateId 1762041600000 ''i'', generateId 1762041600000 ''i'']"
    by (simp add: kanban_defs)
  then show ?thesis unfolding g by simp
qed

subsection \<open>Counting the tasks that carry an id\<close>

lemma cnt_simps [simp]:
  "cnt i [] = 0"
  "cnt i (e # es) = (if el_id e = i then Suc (cnt i es) else cnt i es)"
  "cnt i (xs @ ys) = cnt i xs + cnt i ys"
  by (simp_all add: cnt_def)

lemma id_count_split:
  "id_count s i = cnt i (listByColumn s ''todo'') + cnt i (listByColumn s ''inprogress'')
     + cnt i (listByColumn s ''done'')"
  by (simp add: id_count_def all_tasks_def listByColumn_def taskContainers_def cnt_def)

lemma listByColumn_no_column:
  "key \<noteq> ''todo'' \<Longrightarrow> key \<noteq> ''inprogress'' \<Longrightarrow> key \<noteq> ''done'' \<Longrightarrow> listByColumn s key = []"
  by (simp add: listByColumn_def taskContainers_def children_def)

lemma find_None_cnt: "find (\<lambda>e. el_id e = i) xs = None \<longleftrightarrow> cnt i xs = 0"
  by (induction xs) auto

lemma find_Some_cnt: "find (\<lambda>e. el_id e = i) xs = Some e \<Longrightarrow> 0 < cnt i xs"
  by (induction xs) (auto split: if_splits)

lemma first_task_None_iff: "first_task s i = None \<longleftrightarrow> id_count s i = 0"
  by (auto simp: first_task_def id_count_split listByColumn_def taskContainers_def
      find_None_cnt split: option.splits dest: find_Some_cnt)

lemma getElementById_Missing:
  assumes "i \<notin> set (page_ids others s)" and "i = [] \<or> id_count s i = 0"
  shows "getElementById others s i = Missing"
  using assms by (auto simp: getElementById_def first_task_None_iff [symmetric])

lemma getElementById_found:
  assumes "i \<notin> set (page_ids others s)" and "i \<noteq> []" and "id_count s i \<noteq> 0"
  shows "\<exists>key e. getElementById others s i = TaskElement key e"
proof -
  from assms(3) have "first_task s i \<noteq> None" by (simp add: first_task_None_iff)
  then show ?thesis using assms(1,2) by (auto simp: getElementById_def)
qed

lemma remove_el_append:
  "remove_el i (xs @ ys) = (if 0 < cnt i xs then remove_el i xs @ ys else xs @ remove_el i ys)"
  by (induction xs) auto

lemma all_tasks_remove_first:
  assumes "first_task s i = Some (key, e)" and "taskContainers s key = Some xs"
  shows "all_tasks (set_children key (remove_el i xs) s) = remove_el i (all_tasks s)"
proof -
  let ?a = "children (todoTasksContainer s)"
  let ?b = "children (inprogressTasksContainer s)"
  let ?c = "children (doneTasksContainer s)"
  consider (first) "key = ''todo''" "0 < cnt i ?a"
    | (second) "key = ''inprogress''" "cnt i ?a = 0" "0 < cnt i ?b"
    | (third) "key = ''done''" "cnt i ?a = 0" "cnt i ?b = 0"
    using assms(1)
    by (auto simp: first_task_def find_None_cnt split: option.splits dest: find_Some_cnt)
  then show ?thesis
  proof cases
    case first
    then show ?thesis
      using assms(2)
      by (simp add: all_tasks_def set_children_def taskContainers_def children_def
          remove_el_append)
  next
    case second
    then show ?thesis
      using assms(2)
      by (simp add: all_tasks_def set_children_def taskContainers_def children_def
          remove_el_append)
  next
    case third
    then show ?thesis
      using assms(2)
      by (simp add: all_tasks_def set_children_def taskContainers_def children_def
          remove_el_append)
  qed
qed

lemma cnt_remove_el: "cnt j (remove_el i xs) = cnt j xs - (if j = i \<and> 0 < cnt i xs then 1 else 0)"
  by (induction xs) auto

lemma cnt_replace_el: "el_id e' = i \<Longrightarrow> cnt j (replace_el i e' xs) = cnt j xs"
  by (induction xs) auto

lemma remove_el_filter: "cnt i xs \<le> 1 \<Longrightarrow> remove_el i xs = filter (\<lambda>e. el_id e \<noteq> i) xs"
proof (induction xs)
  case Nil
  then show ?case by simp
next
  case (Cons e es)
  have z: "filter (\<lambda>e. el_id e \<noteq> i) ys = ys" if "cnt i ys = 0" for ys
    using that by (induction ys) (auto split: if_splits)
  show ?case
    using Cons by (auto simp: z split: if_splits)
qed

lemma filter_cnt_0: "cnt i ys = 0 \<Longrightarrow> filter (\<lambda>e. el_id e \<noteq> i) ys = ys"
  by (induction ys) (auto split: if_splits)

lemma cnt_filter_other: "cnt i (filter (\<lambda>e. el_id e \<noteq> i) xs) = 0"
  by (induction xs) auto

lemma listByColumn_Some: "taskContainers s key = Some xs \<Longrightarrow> listByColumn s key = xs"
  by (simp add: listByColumn_def children_def)

lemma id_count_save [simp]: "id_count (saveTasksToLocalStorage s) j = id_count s j"
  by (simp add: id_count_split)

lemma id_count_emit [simp]: "id_count (emit x s) j = id_count s j"
  by (simp add: id_count_split)

lemma id_count_set_children:
  assumes "taskContainers s key = Some ys"
  shows "id_count (set_children key xs s) j + cnt j ys = id_count s j + cnt j xs"
  using assms
  by (cases rule: key_cases)
     (simp_all add: id_count_def cnt_def all_tasks_def set_children_def children_def)

lemma distinct_ids_cnt: "distinct (map el_id xs) \<longleftrightarrow> (\<forall>j. cnt j xs \<le> 1)"
proof (induction xs)
  case Nil
  then show ?case by simp
next
  case (Cons e es)
  have a: "el_id e \<notin> el_id ` set es \<longleftrightarrow> cnt (el_id e) es = 0"
    by (induction es) auto
  show ?case
  proof
    assume d: "distinct (map el_id (e # es))"
    then have 0: "cnt (el_id e) es = 0" and 1: "\<forall>j. cnt j es \<le> 1"
      using a Cons by simp_all
    show "\<forall>j. cnt j (e # es) \<le> 1"
      using 0 1 by simp
  next
    assume c: "\<forall>j. cnt j (e # es) \<le> 1"
    from c [rule_format, of "el_id e"] have 0: "cnt (el_id e) es = 0" by simp
    have "cnt j es \<le> 1" for j
      using c [rule_format, of j] by (simp split: if_splits)
    then show "distinct (map el_id (e # es))"
      using 0 a Cons by simp
  qed
qed

lemma unique_ids_iff: "unique_ids s \<longleftrightarrow> (\<forall>j. id_count s j \<le> 1)"
  using distinct_ids_cnt [of "all_tasks s"]
  by (simp add: unique_ids_def id_count_def cnt_def)

lemma cnt_column_le: "cnt i (listByColumn s c) \<le> id_count s i"
  by (cases "c = ''todo''"; cases "c = ''inprogress''"; cases "c = ''done''")
     (simp_all add: id_count_split listByColumn_no_column)

lemma cnt_pair_le:
  assumes "k \<noteq> key"
  shows "cnt i (listByColumn s k) + cnt i (listByColumn s key) \<le> id_count s i"
proof -
  note col = cnt_column_le [of i s]
  show ?thesis
  proof (cases "k = ''todo'' \<or> k = ''inprogress'' \<or> k = ''done''")
    case False
    then show ?thesis using col [of key] by (simp add: listByColumn_no_column)
  next
    case k: True
    show ?thesis
    proof (cases "key = ''todo'' \<or> key = ''inprogress'' \<or> key = ''done''")
      case False
      then show ?thesis using col [of k] by (simp add: listByColumn_no_column)
    next
      case True
      with k assms show ?thesis
        unfolding id_count_split by (elim disjE) simp_all
    qed
  qed
qed

subsection \<open>Deleting\<close>

lemma deleteTask_absent:
  assumes "i \<notin> set (page_ids others s)" and "i = [] \<or> id_count s i = 0"
  shows "deleteTask others i s = Some (emit Warning s)"
  by (simp add: deleteTask_def getElementById_Missing [OF assms])

lemma deleteTask_present:
  assumes "i \<notin> set (page_ids others s)" and "i \<noteq> []" and "id_count s i \<noteq> 0"
  shows "\<exists>key xs s'. taskContainers s key = Some xs
           \<and> s' = saveTasksToLocalStorage (set_children key (remove_el i xs) s)
           \<and> deleteTask others i s = Some s'
           \<and> all_tasks s' = remove_el i (all_tasks s)
           \<and> 0 < cnt i xs
           \<and> (\<forall>k. listByColumn s' k
                  = (if k = key then remove_el i (listByColumn s k) else listByColumn s k))"
proof -
  from getElementById_found [OF assms]
  obtain key e where found: "getElementById others s i = TaskElement key e" by blast
  from getElementById_task [OF found]
  obtain xs where xs: "taskContainers s key = Some xs"
    and f: "find (\<lambda>x. el_id x = i) xs = Some e" by blast
  define s' where "s' = saveTasksToLocalStorage (set_children key (remove_el i xs) s)"
  have d: "deleteTask others i s = Some s'"
    using found xs by (simp add: deleteTask_def children_def s'_def)
  have "all_tasks s' = all_tasks (set_children key (remove_el i xs) s)"
    by (simp add: s'_def saveTasksToLocalStorage_def emit_def all_tasks_def)
  then have a: "all_tasks s' = remove_el i (all_tasks s)"
    using all_tasks_remove_first [OF getElementById_TaskD(1) [OF found] xs] by simp
  have l: "listByColumn s' k
             = (if k = key then remove_el i (listByColumn s k) else listByColumn s k)" for k
    using listByColumn_Some [OF xs]
    by (simp add: s'_def listByColumn_set_children [OF xs])
  show ?thesis
    using xs d a l find_Some_cnt [OF f] s'_def by blast
qed

text \<open>
  C8, as the code has it. The claim says that deleting an id that is on the board removes
  it from every listing and that a second delete finds nothing. \<open>deleteTask\<close> removes the
  one element \<open>getElementById\<close> answers with, the first with that id. A board loaded from a
  snapshot with two records of one id has two such elements: after the delete the id is
  still listed, and the second delete removes the other element and takes a snapshot.
\<close>

theorem deleteTask_duplicate_id_counterexample:
  "map el_id (all_tasks (initKanban True True True True (Some (Parses (JArr
      [JObj [(''id'', JStr ''a''), (''text'', JStr ''x''), (''status'', JStr ''todo'')],
       JObj [(''id'', JStr ''a''), (''text'', JStr ''y''), (''status'', JStr ''done'')]])))))
     = [''a'', ''a'']
   \<and> map_option (\<lambda>s. map el_id (listByColumn s ''done''))
       (deleteTask [''addTaskBtn''] ''a'' (initKanban True True True True (Some (Parses (JArr
      [JObj [(''id'', JStr ''a''), (''text'', JStr ''x''), (''status'', JStr ''todo'')],
       JObj [(''id'', JStr ''a''), (''text'', JStr ''y''), (''status'', JStr ''done'')]])))))
     = Some [''a'']
   \<and> map_option effects
       (run [''addTaskBtn''] [Delete ''a'', Delete ''a'']
         (initKanban True True True True (Some (Parses (JArr
      [JObj [(''id'', JStr ''a''), (''text'', JStr ''x''), (''status'', JStr ''todo'')],
       JObj [(''id'', JStr ''a''), (''text'', JStr ''y''), (''status'', JStr ''done'')]])))))
     = Some [Snapshot, Snapshot]"
  by (simp add: kanban_defs)

text \<open>
  C8, amended. Take an id \<open>i\<close> that no static element of the page carries. When \<open>i\<close> is
  empty or no task carries it, \<open>deleteTask i\<close> only logs a warning: the containers and the
  storage slot stay as they are and no snapshot is taken. Otherwise \<open>deleteTask i\<close> removes
  the first task with that id in document order, in one column, and leaves every other
  task where it is, and takes one snapshot, which stores the new board. When exactly one
  task carries \<open>i\<close>, the id is then gone from every column listing, and a second
  \<open>deleteTask i\<close> only logs a warning.
\<close>

theorem deleteTask_first_with_id:
  assumes "i \<notin> set (page_ids others s)"
  shows "\<exists>s'. deleteTask others i s = Some s' \<and>
           (if i = [] \<or> id_count s i = 0 then s' = emit Warning s
            else all_tasks s' = remove_el i (all_tasks s)
               \<and> (\<exists>key. \<forall>k. listByColumn s' k
                      = (if k = key then remove_el i (listByColumn s k) else listByColumn s k))
               \<and> effects s' = effects s @ [Snapshot]
               \<and> kanbanTasks s' = Some (Parses (JArr (snapshot s')))
               \<and> (id_count s i = 1 \<longrightarrow>
                    (\<forall>k. listByColumn s' k = filter (\<lambda>e. el_id e \<noteq> i) (listByColumn s k))
                    \<and> deleteTask others i s' = Some (emit Warning s')))"
proof (cases "i = [] \<or> id_count s i = 0")
  case True
  then show ?thesis using deleteTask_absent [OF assms True] by simp
next
  case False
  then have ne: "i \<noteq> []" and pos: "id_count s i \<noteq> 0" by simp_all
  from deleteTask_present [OF assms ne pos]
  obtain key xs s' where xs: "taskContainers s key = Some xs"
    and s': "s' = saveTasksToLocalStorage (set_children key (remove_el i xs) s)"
    and d: "deleteTask others i s = Some s'"
    and a: "all_tasks s' = remove_el i (all_tasks s)"
    and c: "0 < cnt i xs"
    and l: "\<forall>k. listByColumn s' k
                  = (if k = key then remove_el i (listByColumn s k) else listByColumn s k)"
    by blast
  have fx: "effects s' = effects s @ [Snapshot]"
    by (simp add: s')
  have st: "kanbanTasks s' = Some (Parses (JArr (snapshot s')))"
    by (simp add: s' saveTasksToLocalStorage_def emit_def snapshot_def)
  have single: "(\<forall>k. listByColumn s' k = filter (\<lambda>e. el_id e \<noteq> i) (listByColumn s k))
                    \<and> deleteTask others i s' = Some (emit Warning s')"
    if one: "id_count s i = 1"
  proof -
    have k1: "cnt i (listByColumn s key) = 1"
      using c cnt_column_le [of i s key] one listByColumn_Some [OF xs] by simp
    have k0: "cnt i (listByColumn s k) = 0" if "k \<noteq> key" for k
      using c cnt_pair_le [of key k i s] one that listByColumn_Some [OF xs] by simp
    have f: "listByColumn s' k = filter (\<lambda>e. el_id e \<noteq> i) (listByColumn s k)" for k
    proof (cases "k = key")
      case True
      then show ?thesis using l k1 by (simp add: remove_el_filter)
    next
      case False
      then show ?thesis using l k0 [OF False] by (simp add: filter_cnt_0)
    qed
    have z: "id_count s' i = 0"
      by (simp add: id_count_split f cnt_filter_other)
    have "page_ids others s' = page_ids others s"
      by (rule page_ids_cong [OF elements_found_deleteTask [OF d]])
    then have "i \<notin> set (page_ids others s')" using assms by simp
    from deleteTask_absent [OF this] z f show ?thesis by simp
  qed
  show ?thesis
    using False d a l fx st single by auto
qed

theorem deleteTask_first_with_id_witness:
  "(\<exists>s'. deleteTask [''addTaskBtn''] ''task-5-abc''
            (addTask 5 ''abc'' (type_text ''Write spec'' (initKanban True True True True None)))
          = Some s'
      \<and> all_tasks s' = []
      \<and> effects s' = [Snapshot, Snapshot]
      \<and> deleteTask [''addTaskBtn''] ''task-5-abc'' s' = Some (emit Warning s'))
   \<and> deleteTask [''addTaskBtn''] ''nope''
        (addTask 5 ''abc'' (type_text ''Write spec'' (initKanban True True True True None)))
     = Some (emit Warning
        (addTask 5 ''abc'' (type_text ''Write spec'' (initKanban True True True True None))))
   \<and> (\<exists>s'. deleteTask [''addTaskBtn''] ''a''
            (initKanban True True True True (Some (Parses (JArr
               [JObj [(''id'', JStr ''a''), (''text'', JStr ''x''), (''status'', JStr ''todo'')],
                JObj [(''id'', JStr ''a''), (''text'', JStr ''y''), (''status'', JStr ''done'')]]))))
          = Some s'
      \<and> all_tasks s' = [\<lparr>el_id = ''a'', el_text = ''y'', text_done = True,
                             lastColumn = Some ''done''\<rparr>])"
proof -
  let ?o = "[''addTaskBtn'']"
  let ?s = "addTask 5 ''abc'' (type_text ''Write spec'' (initKanban True True True True None))"
  let ?e = "\<lparr>el_id = ''task-5-abc'', el_text = ''Write spec'',
              text_done = False, lastColumn = Some ''todo''\<rparr>"
  let ?t = "initKanban True True True True (Some (Parses (JArr
               [JObj [(''id'', JStr ''a''), (''text'', JStr ''x''), (''status'', JStr ''todo'')],
                JObj [(''id'', JStr ''a''), (''text'', JStr ''y''), (''status'', JStr ''done'')]])))"
  have s: "all_tasks ?s = [?e]" "effects ?s = [Snapshot]"
    "set (page_ids ?o ?s) = set [''taskInput'', ''todoTasks'', ''todo'', ''kanbanContent'',
        ''inprogressTasks'', ''inprogress'', ''doneTasks'', ''done'', ''addTaskBtn'']"
    by (simp_all add: kanban_defs generateId_def digit_def insert_commute)
  have n1: "''task-5-abc'' \<notin> set (page_ids ?o ?s)" and n2: "''nope'' \<notin> set (page_ids ?o ?s)"
    unfolding s(3) by simp_all
  have c1: "id_count ?s ''task-5-abc'' = 1" and c2: "id_count ?s ''nope'' = 0"
    by (simp_all add: id_count_def s)
  from deleteTask_first_with_id [OF n1] c1 s
  obtain s1 where s1: "deleteTask ?o ''task-5-abc'' ?s = Some s1" "all_tasks s1 = []"
    "effects s1 = [Snapshot, Snapshot]" "deleteTask ?o ''task-5-abc'' s1 = Some (emit Warning s1)"
    by auto
  from deleteTask_first_with_id [OF n2] c2
  have 2: "deleteTask ?o ''nope'' ?s = Some (emit Warning ?s)" by auto
  have t: "all_tasks ?t = [\<lparr>el_id = ''a'', el_text = ''x'', text_done = False,
                             lastColumn = Some ''todo''\<rparr>,
                           \<lparr>el_id = ''a'', el_text = ''y'', text_done = True,
                             lastColumn = Some ''done''\<rparr>]"
    "set (page_ids ?o ?t) = set [''taskInput'', ''todoTasks'', ''todo'', ''kanbanContent'',
        ''inprogressTasks'', ''inprogress'', ''doneTasks'', ''done'', ''addTaskBtn'']"
    by (simp_all add: kanban_defs insert_commute)
  have n3: "''a'' \<notin> set (page_ids ?o ?t)" unfolding t(2) by simp
  have c3: "id_count ?t ''a'' = 2" by (simp add: id_count_def t)
  from deleteTask_first_with_id [OF n3] c3 t(1)
  obtain s3 where s3: "deleteTask ?o ''a'' ?t = Some s3"
    "all_tasks s3 = [\<lparr>el_id = ''a'', el_text = ''y'', text_done = True,
                             lastColumn = Some ''done''\<rparr>]"
    by auto
  show ?thesis
    using s1 2 s3 by auto
qed

subsection \<open>What the operations do to the number of tasks with an id\<close>

lemma id_count_onDrop:
  assumes "onDrop others targetColumnId i s = Some s'"
  shows "id_count s' j = id_count s j"
proof (cases "getElementById others s i")
  case Missing
  then show ?thesis using assms by (auto simp: onDrop_def)
next
  case PageElement
  then show ?thesis using assms by (simp add: onDrop_def)
next
  case (TaskElement parent e)
  note found = TaskElement
  from getElementById_task [OF found]
  obtain xs where xs: "taskContainers s parent = Some xs"
    and f: "find (\<lambda>x. el_id x = i) xs = Some e" by blast
  have ei: "el_id e = i" using find_id_in [OF f] by simp
  have pos: "0 < cnt i xs" by (rule find_Some_cnt [OF f])
  show ?thesis
  proof (cases "taskContainers s targetColumnId")
    case None
    then show ?thesis using found assms by (auto simp: onDrop_def)
  next
    case tgt: (Some target)
    define styled where "styled = e\<lparr>text_done := (targetColumnId = ''done''),
                                     lastColumn := Some targetColumnId\<rparr>"
    have si: "el_id styled = i" by (simp add: styled_def ei)
    define u where "u = (if parent \<noteq> targetColumnId
        then set_children targetColumnId (target @ [styled])
               (set_children parent (remove_el i xs) s)
        else set_children parent (replace_el i styled xs) s)"
    have "onDrop others targetColumnId i s = Some (saveTasksToLocalStorage
            (if targetColumnId = ''done'' \<and> lastColumn e \<noteq> Some ''done''
             then emit Confetti u else u))"
      using found tgt xs by (auto simp: onDrop_def Let_def children_def u_def styled_def)
    then have 1: "id_count s' j = id_count u j"
      using assms by auto
    have 2: "id_count u j = id_count s j"
    proof (cases "parent = targetColumnId")
      case True
      then show ?thesis
        using id_count_set_children [OF xs, of "replace_el i styled xs" j]
        by (simp add: u_def cnt_replace_el [OF si])
    next
      case False
      let ?s1 = "set_children parent (remove_el i xs) s"
      have t1: "taskContainers ?s1 targetColumnId = Some target"
        using taskContainers_set_children_other [OF xs, of targetColumnId] False tgt by simp
      show ?thesis
        using id_count_set_children [OF xs, of "remove_el i xs" j]
          id_count_set_children [OF t1, of "target @ [styled]" j] False pos
        by (simp add: u_def cnt_remove_el si split: if_splits)
    qed
    show ?thesis using 1 2 by simp
  qed
qed

lemma id_count_deleteTask:
  assumes "deleteTask others i s = Some s'"
  shows "id_count s' j \<le> id_count s j"
proof (cases "getElementById others s i")
  case Missing
  then show ?thesis using assms by (auto simp: deleteTask_def)
next
  case PageElement
  then show ?thesis using assms by (simp add: deleteTask_def)
next
  case (TaskElement k e)
  from getElementById_task [OF TaskElement]
  obtain xs where xs: "taskContainers s k = Some xs" by blast
  show ?thesis
    using TaskElement xs assms id_count_set_children [OF xs, of "remove_el i xs" j]
    by (auto simp: deleteTask_def children_def cnt_remove_el split: if_splits)
qed

lemma id_count_upd [simp]:
  "id_count (s\<lparr>taskInput := inp\<rparr>) j = id_count s j"
  "id_count (s\<lparr>kanbanTasks := slot\<rparr>) j = id_count s j"
  "id_count (s\<lparr>effects := fx\<rparr>) j = id_count s j"
  by (simp_all add: id_count_def all_tasks_def)

lemma id_count_todo_append:
  "todoTasksContainer s = Some xs \<Longrightarrow>
   id_count (s\<lparr>todoTasksContainer := Some (xs @ [e])\<rparr>) j
     = id_count s j + (if el_id e = j then 1 else 0)"
  by (simp add: id_count_def all_tasks_def children_def)

lemma id_count_load_task:
  assumes "load_task r s = Some s1"
  shows "id_count s1 j
     \<le> id_count s j + (if record_accepted r \<and> record_id r = j then 1 else 0)"
proof (cases "record_accepted r")
  case False
  then show ?thesis
    using assms by (auto simp: load_task_rejected split: if_splits)
next
  case True
  show ?thesis
  proof (cases "taskContainers s (str_of (property r ''status''))")
    case (Some xs)
    have app: "id_count (set_children (str_of (property r ''status'')) (xs @ [e]) s) m
                 = id_count s m + (if el_id e = m then 1 else 0)" for e m
      using id_count_set_children [OF Some, of "xs @ [e]" m] by simp
    show ?thesis
      using assms True Some
      by (auto simp: load_task_accepted [OF True] app)
  next
    case None
    show ?thesis
    proof (cases "todoTasksContainer s")
      case (Some ys)
      then show ?thesis
        using assms True None
        by (auto simp: load_task_accepted [OF True] id_count_todo_append)
    next
      case n: None
      then show ?thesis
        using assms None by (auto simp: load_task_accepted [OF True])
    qed
  qed
qed

lemma id_count_forEach_load:
  "(case forEach_load records s of Inl s' \<Rightarrow> id_count s' j | Inr s' \<Rightarrow> id_count s' j)
     \<le> id_count s j + length (filter (\<lambda>r. record_accepted r \<and> record_id r = j) records)"
proof (induction records arbitrary: s)
  case Nil
  then show ?case by simp
next
  case (Cons r rs)
  show ?case
  proof (cases "load_task r s")
    case None
    then show ?thesis by simp
  next
    case (Some s1)
    from Cons.IH [of s1] id_count_load_task [OF Some, of j] Some
    show ?thesis by (simp split: if_splits)
  qed
qed

lemma id_count_fresh_page [simp]: "id_count (fresh_page a b c d slot) j = 0"
  by (simp add: id_count_def all_tasks_def fresh_page_def children_def)

lemma id_count_removeItem [simp]: "id_count (removeItem s) j = id_count s j"
  by (simp add: removeItem_def)

lemma id_count_initKanban_records:
  "id_count (initKanban a b c d (Some (Parses (JArr records)))) j
     \<le> length (filter (\<lambda>r. record_accepted r \<and> record_id r = j) records)"
proof -
  let ?fp = "fresh_page a b c d (Some (Parses (JArr records)))"
  have k: "kanbanTasks ?fp = Some (Parses (JArr records))"
    by (simp add: fresh_page_def)
  have i: "initKanban a b c d (Some (Parses (JArr records)))
      = (case forEach_load records ?fp of Inr s' \<Rightarrow> s'
         | Inl s' \<Rightarrow> removeItem (emit ErrorLog s'))"
    by (simp add: initKanban_def loadTasksFromLocalStorage_def k)
  show ?thesis
    using id_count_forEach_load [where records = records and j = j and s = ?fp]
    unfolding i by (cases "forEach_load records ?fp") simp_all
qed

lemma distinct_record_ids:
  "distinct (map record_id (filter record_accepted records))
   \<Longrightarrow> length (filter (\<lambda>r. record_accepted r \<and> record_id r = j) records) \<le> 1"
proof (induction records)
  case Nil
  then show ?case by simp
next
  case (Cons r rs)
  have z: "filter (\<lambda>r. record_accepted r \<and> record_id r = i) rs = []"
    if "i \<notin> record_id ` {x \<in> set rs. record_accepted x}" for i
    using that by (induction rs) auto
  show ?case
  proof (cases "record_accepted r")
    case False
    then show ?thesis using Cons by simp
  next
    case True
    then have d: "distinct (map record_id (filter record_accepted rs))"
      and n: "record_id r \<notin> record_id ` {x \<in> set rs. record_accepted x}"
      using Cons.prems by simp_all
    show ?thesis
    proof (cases "record_id r = j")
      case True
      then show ?thesis using z [OF n] by simp
    next
      case False
      then show ?thesis using Cons.IH [OF d] by simp
    qed
  qed
qed

lemma in_set_cnt: "e \<in> set xs \<Longrightarrow> 0 < cnt (el_id e) xs"
  by (induction xs) auto

lemma cnt_placed_single:
  "cnt j (placed ''todo'' [r]) + cnt j (placed ''inprogress'' [r]) + cnt j (placed ''done'' [r])
     = (if record_accepted r \<and> record_id r = j then 1 else 0)"
  by (simp add: placed_def record_element_def record_id_def record_column_def)

lemma cnt_placed:
  "cnt j (placed ''todo'' rs) + cnt j (placed ''inprogress'' rs) + cnt j (placed ''done'' rs)
     = length (filter (\<lambda>r. record_accepted r \<and> record_id r = j) rs)"
proof (induction rs)
  case Nil
  then show ?case by (simp add: placed_def)
next
  case (Cons r rs)
  have "cnt j (placed ''todo'' (r # rs)) + cnt j (placed ''inprogress'' (r # rs))
          + cnt j (placed ''done'' (r # rs))
        = (cnt j (placed ''todo'' [r]) + cnt j (placed ''inprogress'' [r])
             + cnt j (placed ''done'' [r]))
          + (cnt j (placed ''todo'' rs) + cnt j (placed ''inprogress'' rs)
             + cnt j (placed ''done'' rs))"
    by (simp add: placed_Cons [of _ r rs])
  then show ?case
    unfolding cnt_placed_single Cons.IH by simp
qed

lemma id_count_initKanban_present:
  assumes "JNull \<notin> set records"
  shows "id_count (initKanban hasInput True True True (Some (Parses (JArr records)))) j
           = length (filter (\<lambda>r. record_accepted r \<and> record_id r = j) records)"
proof -
  let ?fp = "fresh_page hasInput True True True (Some (Parses (JArr records)))"
  from forEach_load_present [OF assms, of ?fp "[]" "[]" "[]"]
  obtain t where t: "forEach_load records ?fp = Inr t"
    "todoTasksContainer t = Some (placed ''todo'' records)"
    "inprogressTasksContainer t = Some (placed ''inprogress'' records)"
    "doneTasksContainer t = Some (placed ''done'' records)"
    by (auto simp: fresh_page_def)
  have "initKanban hasInput True True True (Some (Parses (JArr records))) = t"
    unfolding initKanban_def loadTasksFromLocalStorage_def
    using t(1) by (simp add: fresh_page_def)
  then show ?thesis
    using t(2-4) cnt_placed [of j records]
    by (simp add: id_count_def all_tasks_def children_def cnt_def)
qed

text \<open>
  C9, as the code has it. The claim says that a load yields at most one task per id, also
  for a snapshot with two records of the same id. The load path creates one element per
  accepted record and compares no ids: such a snapshot puts two tasks with the same id on
  the board.
\<close>

theorem load_duplicate_ids_counterexample:
  "map el_id (all_tasks (initKanban True True True True (Some (Parses (JArr
      [JObj [(''id'', JStr ''a''), (''text'', JStr ''x''), (''status'', JStr ''todo'')],
       JObj [(''id'', JStr ''a''), (''text'', JStr ''y''), (''status'', JStr ''todo'')]])))))
     = [''a'', ''a'']
   \<and> \<not> unique_ids (initKanban True True True True (Some (Parses (JArr
      [JObj [(''id'', JStr ''a''), (''text'', JStr ''x''), (''status'', JStr ''todo'')],
       JObj [(''id'', JStr ''a''), (''text'', JStr ''y''), (''status'', JStr ''todo'')]]))))"
  by (simp add: kanban_defs unique_ids_def)

text \<open>
  C9, amended. On a board where no id appears twice, a drop and a delete of an id that no
  static element of the page carries keep it so, and a task sits in one column only. A
  load on a fresh page yields a board where no id appears twice when the accepted records
  of the snapshot carry pairwise different ids. On a page with its three containers, a
  load of a snapshot without \<open>null\<close> elements puts as many tasks with an id on the board as
  the snapshot has accepted records with that id.
\<close>

theorem unique_ids_preserved:
  assumes "unique_ids s" and "i \<notin> set (page_ids others s)"
  shows "(\<exists>s'. onDrop others targetColumnId i s = Some s' \<and> unique_ids s')
       \<and> (\<exists>s'. deleteTask others i s = Some s' \<and> unique_ids s')
       \<and> (\<forall>e \<in> set (listByColumn s k). \<forall>e' \<in> set (listByColumn s k').
             el_id e = el_id e' \<longrightarrow> k = k')
       \<and> (distinct (map record_id (filter record_accepted records)) \<longrightarrow>
            unique_ids (initKanban hasInput hasTodo hasInprogress hasDone
                          (Some (Parses (JArr records)))))
       \<and> (JNull \<notin> set records \<longrightarrow>
            id_count (initKanban hasInput True True True (Some (Parses (JArr records)))) j
              = length (filter (\<lambda>r. record_accepted r \<and> record_id r = j) records))"
proof -
  have le: "id_count s j \<le> 1" for j
    using assms(1) by (simp add: unique_ids_iff)
  from step_in_model [of others s "Move i targetColumnId"] assms(2)
  obtain s1 where s1: "onDrop others targetColumnId i s = Some s1" by auto
  have 1: "unique_ids s1"
    unfolding unique_ids_iff using le by (simp add: id_count_onDrop [OF s1])
  from step_in_model [of others s "Delete i"] assms(2)
  obtain s2 where s2: "deleteTask others i s = Some s2" by auto
  have 2: "unique_ids s2"
    unfolding unique_ids_iff
    using id_count_deleteTask [OF s2] le by (meson order_trans)
  have 4: "unique_ids (initKanban hasInput hasTodo hasInprogress hasDone
                          (Some (Parses (JArr records))))"
    if "distinct (map record_id (filter record_accepted records))"
    unfolding unique_ids_iff
  proof
    fix j
    show "id_count (initKanban hasInput hasTodo hasInprogress hasDone
                          (Some (Parses (JArr records)))) j \<le> 1"
      using id_count_initKanban_records [of hasInput hasTodo hasInprogress hasDone records j]
        distinct_record_ids [OF that, of j]
      by simp
  qed
  have 5: "k = k'"
    if "e \<in> set (listByColumn s k)" "e' \<in> set (listByColumn s k')" "el_id e = el_id e'"
    for e e'
  proof (rule ccontr)
    assume "k \<noteq> k'"
    from cnt_pair_le [OF this, of "el_id e" s] in_set_cnt [OF that(1)] in_set_cnt [OF that(2)]
      le [of "el_id e"] that(3)
    show False by simp
  qed
  show ?thesis
    using s1 1 s2 2 4 5 id_count_initKanban_present by blast
qed

theorem unique_ids_preserved_witness:
  "(\<exists>s'. onDrop [''addTaskBtn''] ''done'' ''task-5-abc''
            (addTask 6 ''xyz'' (type_text ''b''
               (addTask 5 ''abc'' (type_text ''a'' (initKanban True True True True None)))))
          = Some s'
      \<and> unique_ids s')
   \<and> (\<exists>s'. deleteTask [''addTaskBtn''] ''task-5-abc''
            (addTask 6 ''xyz'' (type_text ''b''
               (addTask 5 ''abc'' (type_text ''a'' (initKanban True True True True None)))))
          = Some s'
      \<and> unique_ids s')
   \<and> unique_ids (initKanban True True True True (Some (Parses (JArr
      [JObj [(''id'', JStr ''a''), (''text'', JStr ''x''), (''status'', JStr ''todo'')],
       JObj [(''id'', JStr ''b''), (''text'', JStr ''y''), (''status'', JStr ''archived'')]]))))
   \<and> id_count (initKanban True True True True (Some (Parses (JArr
      [JObj [(''id'', JStr ''a''), (''text'', JStr ''x''), (''status'', JStr ''todo'')],
       JObj [(''id'', JStr ''a''), (''text'', JStr ''y''), (''status'', JStr ''done'')]]))))
      ''a'' = 2"
proof -
  let ?o = "[''addTaskBtn'']"
  let ?s = "addTask 6 ''xyz'' (type_text ''b''
               (addTask 5 ''abc'' (type_text ''a'' (initKanban True True True True None))))"
  let ?distinct = "[JObj [(''id'', JStr ''a''), (''text'', JStr ''x''), (''status'', JStr ''todo'')],
       JObj [(''id'', JStr ''b''), (''text'', JStr ''y''), (''status'', JStr ''archived'')]]"
  let ?same = "[JObj [(''id'', JStr ''a''), (''text'', JStr ''x''), (''status'', JStr ''todo'')],
       JObj [(''id'', JStr ''a''), (''text'', JStr ''y''), (''status'', JStr ''done'')]]"
  have ids: "map el_id (all_tasks ?s) = [''task-5-abc'', ''task-6-xyz'']"
    and p: "set (page_ids ?o ?s) = set [''taskInput'', ''todoTasks'', ''todo'', ''kanbanContent'',
        ''inprogressTasks'', ''inprogress'', ''doneTasks'', ''done'', ''addTaskBtn'']"
    by (simp_all add: kanban_defs generateId_def digit_def insert_commute)
  have u: "unique_ids ?s"
    unfolding unique_ids_def ids by simp
  have n: "''task-5-abc'' \<notin> set (page_ids ?o ?s)"
    unfolding p by simp
  have d: "distinct (map record_id (filter record_accepted ?distinct))"
    by (simp add: record_id_def record_accepted_def)
  have c: "length (filter (\<lambda>r. record_accepted r \<and> record_id r = ''a'') ?same) = 2"
    by (simp add: record_id_def record_accepted_def)
  note t1 = unique_ids_preserved [OF u n, of "''done''" "''todo''" "''todo''" ?distinct
      True True True True "''a''"]
  note t2 = unique_ids_preserved [OF u n, of "''done''" "''todo''" "''todo''" ?same
      True True True True "''a''"]
  have 1: "\<exists>s'. onDrop ?o ''done'' ''task-5-abc'' ?s = Some s' \<and> unique_ids s'"
    using t1 by blast
  have 2: "\<exists>s'. deleteTask ?o ''task-5-abc'' ?s = Some s' \<and> unique_ids s'"
    using t1 by blast
  have 3: "unique_ids (initKanban True True True True (Some (Parses (JArr ?distinct))))"
    using t1 d by blast
  have 4: "id_count (initKanban True True True True (Some (Parses (JArr ?same)))) ''a'' = 2"
    using t2 c by simp
  show ?thesis
    using 1 2 3 4 by blast
qed

end
